theory Spec2Isabelle
  imports Main "HOL-Library.Word" "HOL-Library.Signed_Division"
begin

section \<open>Conventions\<close>

text \<open>
  The shell and the script interpreter are C. Their embedding follows these conventions.

  \<^item> A C string is a \<^typ>\<open>string\<close>: the characters before the terminating NUL. Reading
    \<^verbatim>\<open>*p\<close> at the terminator is the case of the empty list. A pointer argument that the
    source compares with \<^verbatim>\<open>NULL\<close> is an \<^typ>\<open>'a option\<close>, \<open>None\<close> being \<^verbatim>\<open>NULL\<close>.
    The script context itself is always present: with \<^verbatim>\<open>ctx == NULL\<close> every function
    returns its error value at once and there is no state to describe.
  \<^item> A fixed-size table is a list; a pointer into a table is the index of the slot. The
    source's loop \<^verbatim>\<open>for (i = 0; i < N; i++)\<close> over a table of \<open>N\<close> slots becomes
    \<open>first_slot\<close> over the list.
  \<^item> \<^verbatim>\<open>strncpy(dst, src, n)\<close> into zeroed storage whose last byte is never written
    leaves \<open>take n src\<close> in \<open>dst\<close>.
  \<^item> Status values are the C integers: \<open>OK = 1\<close>, \<open>SYSERR = -1\<close>, and the shell's exit
    codes. Counters and indices (\<^verbatim>\<open>int32_t\<close>) are \<^typ>\<open>int\<close>: they stay within the table
    bounds. Script integer values are \<^typ>\<open>32 word\<close>, whose arithmetic wraps.
  \<^item> C's \<^verbatim>\<open>%\<close> on \<^verbatim>\<open>int\<close> truncates towards zero: it is \<open>smod\<close>.
  \<^item> State is passed explicitly: a function that mutates its context returns the new one.
\<close>

abbreviation BSL :: char where "BSL \<equiv> CHR 0x5C"
abbreviation DQ :: char where "DQ \<equiv> CHR 0x22"
abbreviation SQ :: char where "SQ \<equiv> CHR 0x27"
abbreviation TAB :: char where "TAB \<equiv> CHR 0x09"
abbreviation NL :: char where "NL \<equiv> CHR 0x0A"

definition is_blank :: "char \<Rightarrow> bool" where
  "is_blank c = (c = CHR '' '' \<or> c = TAB)"

definition OK :: int where "OK = 1"
definition SYSERR :: int where "SYSERR = - 1"

fun first_slot :: "('a \<Rightarrow> bool) \<Rightarrow> 'a list \<Rightarrow> nat option" where
  "first_slot P [] = None"
| "first_slot P (x # xs) =
     (if P x then Some 0 else map_option Suc (first_slot P xs))"

section \<open>Expression helpers: the wildcard matcher\<close>

text \<open>
  \<^verbatim>\<open>expr_match_glob\<close> walks pattern and subject together. On \<^verbatim>\<open>*\<close> it steps over the
  star, accepts at once when the pattern ends there, and otherwise tries the rest of the
  pattern against every non-empty suffix of the subject (\<open>glob_scan\<close>, the inner
  \<^verbatim>\<open>while (*s != '\0')\<close> loop). When either string is exhausted the outer loop ends,
  trailing stars are skipped and both strings must be at their end.
\<close>

function expr_match_glob :: "string \<Rightarrow> string \<Rightarrow> bool"
  and glob_scan :: "string \<Rightarrow> string \<Rightarrow> bool" where
  "expr_match_glob [] s = (s = [])"
| "expr_match_glob (c # p) [] = (dropWhile (\<lambda>x. x = CHR ''*'') (c # p) = [])"
| "expr_match_glob (c # p) (d # s) =
     (if c = CHR ''*'' then
        (if p = [] then True else glob_scan p (d # s))
      else if c = CHR ''?'' then expr_match_glob p s
      else if c = d then expr_match_glob p s
      else False)"
| "glob_scan p [] = False"
| "glob_scan p (d # s) =
     (if expr_match_glob p (d # s) then True else glob_scan p s)"
  by pat_completeness auto
termination
  by (relation "measure (\<lambda>x. case x of
          Inl (p, s) \<Rightarrow> 2 * (length p + length s)
        | Inr (p, s) \<Rightarrow> 2 * (length p + length s) + 1)") auto

definition expr_match_regex :: "string \<Rightarrow> string \<Rightarrow> bool" where
  "expr_match_regex pattern str = expr_match_glob pattern str"

section \<open>The splitter: \<^verbatim>\<open>shell_parse_line\<close>\<close>

text \<open>
  \<open>scan_token\<close> is the inner \<^verbatim>\<open>while (*p != '\0')\<close> loop. Its state is the text at \<open>p\<close>,
  the quote flag and the open quote character; \<open>tok\<close> holds the bytes between the start
  of the token and \<open>p\<close>. \<^verbatim>\<open>memmove(p, p + 1, strlen(p))\<close> deletes the character at \<open>p\<close>:
  the text at \<open>p\<close> becomes its tail and the token does not grow. After a deleted backslash
  \<^verbatim>\<open>p++\<close> steps over the next character unexamined, so it joins the token. The loop
  stops at the end of the line or at a blank outside quotes, and returns the token, the
  text at \<open>p\<close> and the quote state.
\<close>

fun scan_token :: "string \<Rightarrow> bool \<Rightarrow> char \<Rightarrow> string \<Rightarrow> string \<times> string \<times> bool \<times> char" where
  "scan_token tok inq qc [] = (tok, [], inq, qc)"
| "scan_token tok inq qc (c # cs) =
     (if c = BSL \<and> cs \<noteq> [] then scan_token (tok @ [hd cs]) inq qc (tl cs)
      else if (c = DQ \<or> c = SQ) \<and> \<not> inq then scan_token tok True c cs
      else if (c = DQ \<or> c = SQ) \<and> c = qc then scan_token tok False qc cs
      else if \<not> inq \<and> is_blank c then (tok, c # cs, inq, qc)
      else scan_token (tok @ [c]) inq qc cs)"

lemma scan_token_rest_length:
  "length (fst (snd (scan_token tok inq qc s))) \<le> length s"
  by (induction tok inq qc s rule: scan_token.induct) (auto simp: le_Suc_eq)

lemma parse_loop_decreases:
  assumes "p \<noteq> []" and "(tok, p2, r) = scan_token [] inq qc (dropWhile is_blank p)"
  shows "length p2 - Suc 0 < length p"
proof -
  have "length p2 \<le> length (dropWhile is_blank p)"
    using scan_token_rest_length [of "[]" inq qc "dropWhile is_blank p"]
    by (simp add: assms(2) [symmetric])
  then have "length p2 \<le> length p"
    using length_dropWhile_le [of is_blank p] by linarith
  with assms(1) show ?thesis by (cases p) auto
qed

text \<open>
  The caller's \<^verbatim>\<open>argv\<close> array is a store from slot numbers to what the call wrote there:
  \<open>Some (Some t)\<close> is a pointer to the token \<open>t\<close> in the line buffer, \<open>Some None\<close> is
  \<^verbatim>\<open>NULL\<close>, and a slot outside the domain was not written. A token, once terminated, is
  not touched again: later deletions shift only bytes behind \<open>p\<close>.

  \<open>parse_loop\<close> is the outer loop, \<open>shell_parse_line\<close> adds the final
  \<^verbatim>\<open>argv[argc] = NULL\<close>.
\<close>

type_synonym argv_store = "nat \<rightharpoonup> string option"

function parse_loop ::
  "int \<Rightarrow> string \<Rightarrow> bool \<Rightarrow> char \<Rightarrow> int \<Rightarrow> argv_store \<Rightarrow> int \<times> argv_store" where
  "parse_loop max_args p inq qc argc argv =
     (if p \<noteq> [] \<and> argc < max_args - 1 then
        (let p1 = dropWhile is_blank p in
         if p1 = [] then (argc, argv)
         else if hd p1 = CHR ''#'' \<and> \<not> inq then (argc, argv)
         else
           (case scan_token [] inq qc p1 of (tok, p2, inq', qc') \<Rightarrow>
              parse_loop max_args (if p2 \<noteq> [] then tl p2 else p2) inq' qc'
                (argc + 1) (argv(nat argc \<mapsto> Some tok))))
      else (argc, argv))"
  by pat_completeness auto
termination
  by (relation "measure (\<lambda>(m, p, inq, qc, argc, argv). length p)")
    (auto intro: parse_loop_decreases)

declare parse_loop.simps [simp del]

definition shell_parse_line :: "string \<Rightarrow> int \<Rightarrow> int \<times> argv_store" where
  "shell_parse_line line max_args =
     (case parse_loop max_args line False (CHR 0x00) 0 Map.empty of
        (argc, argv) \<Rightarrow> (argc, argv(nat argc \<mapsto> None)))"

text \<open>The slots \<open>0 .. argc\<close> as the caller reads them, and the \<open>argc\<close> argument strings.\<close>

definition argv_list :: "int \<times> argv_store \<Rightarrow> string option option list" where
  "argv_list r = map (snd r) [0..<Suc (nat (fst r))]"

definition argv_strings :: "int \<times> argv_store \<Rightarrow> string list" where
  "argv_strings r =
     map (\<lambda>i. case snd r i of Some (Some t) \<Rightarrow> t | _ \<Rightarrow> []) [0..<nat (fst r)]"

abbreviation PTR :: "string \<Rightarrow> string option option" where "PTR t \<equiv> Some (Some t)"
abbreviation NULLP :: "string option option" where "NULLP \<equiv> Some None"

text \<open>Sample inputs of the splitter: a string with every character escaped, a plain word.\<close>

definition escape_all :: "string \<Rightarrow> string" where
  "escape_all s = concat (map (\<lambda>c. [BSL, c]) s)"

definition plain_chars :: "string \<Rightarrow> bool" where
  "plain_chars w = list_all (\<lambda>c. \<not> is_blank c \<and> c \<noteq> BSL \<and> c \<noteq> DQ \<and> c \<noteq> SQ) w"

definition plain_word :: "string \<Rightarrow> bool" where
  "plain_word w = (w \<noteq> [] \<and> hd w \<noteq> CHR ''#'' \<and> plain_chars w)"

section \<open>Shell state\<close>

definition SHELL_MAX_LINE :: nat where "SHELL_MAX_LINE = 256"
definition SHELL_MAX_ARGS :: int where "SHELL_MAX_ARGS = 32"
definition SHELL_MAX_CMD :: nat where "SHELL_MAX_CMD = 64"
definition SHELL_HISTORY_SIZE :: int where "SHELL_HISTORY_SIZE = 50"
definition SHELL_OK :: int where "SHELL_OK = 0"
definition SHELL_ERROR :: int where "SHELL_ERROR = 1"
definition SHELL_EXIT :: int where "SHELL_EXIT = - 1"
definition SHELL_NOT_FOUND :: int where "SHELL_NOT_FOUND = 127"

text \<open>
  Field names are the source's, with the struct's name in front where two structs share
  one (\<^verbatim>\<open>name\<close>, \<^verbatim>\<open>defined\<close>, \<^verbatim>\<open>running\<close>, ...). \<^verbatim>\<open>shell_state_t\<close> is modelled without its
  alias table and its unused \<^verbatim>\<open>env\<close> pointer: no modelled function reads or writes them.
\<close>

record history_entry_t =
  command :: string
  number :: int
  timestamp :: "32 word"

record shell_state_t =
  cwd :: string
  last_exit :: int
  pid :: int
  interactive :: bool
  shell_running :: bool
  history :: "history_entry_t list"
  history_count :: int
  history_index :: int

subsection \<open>History ring buffer\<close>

text \<open>
  \<^verbatim>\<open>shell_history_add\<close> copies the command with \<^verbatim>\<open>strncpy(..., SHELL_MAX_LINE - 1)\<close>, so
  the stored entry is the first 255 characters; the duplicate test compares the stored
  entry with the whole new command.
\<close>

definition shell_history_add :: "shell_state_t \<Rightarrow> string option \<Rightarrow> shell_state_t" where
  "shell_history_add s cmd =
     (case cmd of
        None \<Rightarrow> s
      | Some c \<Rightarrow>
          if c = [] then s
          else if history_count s > 0 \<and>
                  command (history s !
                    nat ((history_index s - 1 + SHELL_HISTORY_SIZE) smod SHELL_HISTORY_SIZE)) = c
          then s
          else
            s\<lparr> history := (history s)[nat (history_index s) :=
                   (history s ! nat (history_index s))
                     \<lparr> command := take (SHELL_MAX_LINE - 1) c, number := history_count s \<rparr>],
               history_index := (history_index s + 1) smod SHELL_HISTORY_SIZE,
               history_count := (if history_count s < SHELL_HISTORY_SIZE
                                 then history_count s + 1 else history_count s) \<rparr>)"

definition shell_history_get :: "shell_state_t \<Rightarrow> int \<Rightarrow> string option" where
  "shell_history_get s index =
     (if index < 0 \<or> index \<ge> history_count s then None
      else Some (command (history s !
             nat ((history_index s - history_count s + index + SHELL_HISTORY_SIZE)
                    smod SHELL_HISTORY_SIZE))))"

definition shell_history_clear :: "shell_state_t \<Rightarrow> shell_state_t" where
  "shell_history_clear s = s\<lparr>history_count := 0, history_index := 0\<rparr>"

text \<open>Adding a sequence of commands, one call each.\<close>

fun history_add_all :: "shell_state_t \<Rightarrow> string list \<Rightarrow> shell_state_t" where
  "history_add_all s [] = s"
| "history_add_all s (c # cs) = history_add_all (shell_history_add s (Some c)) cs"

text \<open>The ranges every history state built by these functions stays in.\<close>

definition history_ok :: "shell_state_t \<Rightarrow> bool" where
  "history_ok s =
     (int (length (history s)) = SHELL_HISTORY_SIZE \<and>
      0 \<le> history_index s \<and> history_index s < SHELL_HISTORY_SIZE \<and>
      0 \<le> history_count s \<and> history_count s \<le> SHELL_HISTORY_SIZE)"

text \<open>
  The state \<^verbatim>\<open>shell_init\<close> leaves in \<^verbatim>\<open>shell_state\<close> (zeroed, with its few
  assignments), the entries \<^verbatim>\<open>shell_history_get\<close> returns for \<open>0 .. count - 1\<close>, the ring
  slot of a logical index, and 52 distinct commands.
\<close>

definition initial_shell_state :: shell_state_t where
  "initial_shell_state =
     \<lparr> cwd = ''/'', last_exit = 0, pid = 0, interactive = True, shell_running = True,
       history = replicate 50 \<lparr>command = [], number = 0, timestamp = 0\<rparr>,
       history_count = 0, history_index = 0 \<rparr>"

definition history_view :: "shell_state_t \<Rightarrow> string list" where
  "history_view s =
     map (\<lambda>i. command (history s !
            nat ((history_index s - history_count s + int i + SHELL_HISTORY_SIZE)
                   smod SHELL_HISTORY_SIZE)))
       [0..<nat (history_count s)]"

definition slot_of :: "shell_state_t \<Rightarrow> int \<Rightarrow> nat" where
  "slot_of s i =
     nat ((history_index s - history_count s + i + SHELL_HISTORY_SIZE) smod SHELL_HISTORY_SIZE)"

definition sample_commands :: "string list" where
  "sample_commands = map (\<lambda>n. replicate (Suc n) (CHR ''x'')) [0..<52]"

subsection \<open>Job table\<close>

datatype job_state_t = JOB_RUNNING | JOB_STOPPED | JOB_DONE | JOB_KILLED

record shell_job_t =
  job_id :: int
  job_pid :: int
  job_pgid :: int
  job_state :: job_state_t
  job_command :: string
  job_foreground :: bool

definition shell_job_create ::
  "shell_job_t list \<Rightarrow> int \<Rightarrow> int \<Rightarrow> string \<Rightarrow> bool \<Rightarrow> int \<times> shell_job_t list \<times> int" where
  "shell_job_create jobs job_count p cmd fg =
     (case first_slot (\<lambda>j. job_state j = JOB_DONE \<or> job_id j = 0) jobs of
        Some i \<Rightarrow>
          (int i + 1,
           jobs[i := (jobs ! i)\<lparr> job_id := int i + 1, job_pid := p, job_pgid := p,
                                 job_state := JOB_RUNNING,
                                 job_command := take (SHELL_MAX_LINE - 1) cmd,
                                 job_foreground := fg \<rparr>],
           job_count + 1)
      | None \<Rightarrow> (SYSERR, jobs, job_count))"

definition shell_job_update :: "shell_job_t list \<Rightarrow> int \<Rightarrow> job_state_t \<Rightarrow> shell_job_t list" where
  "shell_job_update jobs ident st =
     (case first_slot (\<lambda>j. job_id j = ident) jobs of
        Some i \<Rightarrow> jobs[i := (jobs ! i)\<lparr>job_state := st\<rparr>]
      | None \<Rightarrow> jobs)"

definition shell_job_find :: "shell_job_t list \<Rightarrow> int \<Rightarrow> nat option" where
  "shell_job_find jobs ident = first_slot (\<lambda>j. job_id j = ident) jobs"

definition shell_job_find_by_pid :: "shell_job_t list \<Rightarrow> int \<Rightarrow> nat option" where
  "shell_job_find_by_pid jobs p = first_slot (\<lambda>j. job_pid j = p) jobs"

text \<open>
  \<^verbatim>\<open>shell_wait_job\<close> polls \<^verbatim>\<open>while (job->state == JOB_RUNNING) yield();\<close>. What the
  rest of the system does to the job table during one \<^verbatim>\<open>yield()\<close> is a function on the
  table; a \<open>schedule\<close> lists these effects for the successive calls. The standalone
  build's \<^verbatim>\<open>yield\<close> is empty: every effect is \<open>id\<close>. \<open>wait_loop\<close> returns \<open>None\<close> when the
  job is still running after the whole schedule: the call has not returned. \<^verbatim>\<open>resume\<close>
  belongs to the process layer and leaves the job table alone.
\<close>

type_synonym schedule = "(shell_job_t list \<Rightarrow> shell_job_t list) list"

fun wait_loop :: "schedule \<Rightarrow> nat \<Rightarrow> shell_job_t list \<Rightarrow> shell_job_t list option" where
  "wait_loop [] i jobs = (if job_state (jobs ! i) = JOB_RUNNING then None else Some jobs)"
| "wait_loop (y # ys) i jobs =
     (if job_state (jobs ! i) = JOB_RUNNING then wait_loop ys i (y jobs) else Some jobs)"

definition shell_wait_job ::
  "schedule \<Rightarrow> shell_job_t list \<Rightarrow> int \<Rightarrow> (int \<times> shell_job_t list) option" where
  "shell_wait_job sched jobs ident =
     (case shell_job_find jobs ident of
        None \<Rightarrow> Some (SYSERR, jobs)
      | Some i \<Rightarrow> map_option (\<lambda>js. (OK, js)) (wait_loop sched i jobs))"

definition shell_bg :: "shell_job_t list \<Rightarrow> int \<Rightarrow> int \<times> shell_job_t list" where
  "shell_bg jobs p =
     (case shell_job_find_by_pid jobs p of
        None \<Rightarrow> (SYSERR, jobs)
      | Some i \<Rightarrow>
          if job_state (jobs ! i) = JOB_STOPPED
          then (OK, jobs[i := (jobs ! i)\<lparr>job_state := JOB_RUNNING, job_foreground := False\<rparr>])
          else (OK, jobs))"

text \<open>
  \<open>fg_mark\<close> is the two assignments of \<^verbatim>\<open>shell_fg\<close> before it waits:
  \<^verbatim>\<open>job->state = JOB_RUNNING; job->foreground = true;\<close>.
\<close>

definition fg_mark :: "shell_job_t list \<Rightarrow> nat \<Rightarrow> shell_job_t list" where
  "fg_mark jobs i = jobs[i := (jobs ! i)\<lparr>job_state := JOB_RUNNING, job_foreground := True\<rparr>]"

definition shell_fg ::
  "schedule \<Rightarrow> shell_job_t list \<Rightarrow> int \<Rightarrow> (int \<times> shell_job_t list) option" where
  "shell_fg sched jobs p =
     (case shell_job_find_by_pid jobs p of
        None \<Rightarrow> Some (SYSERR, jobs)
      | Some i \<Rightarrow>
          map_option (\<lambda>r. (OK, snd r))
            (shell_wait_job sched (fg_mark jobs i) (job_id (fg_mark jobs i ! i))))"

text \<open>A job table with one finished job, pid 7, in slot 0 and the other 31 slots unused.\<close>

definition unused_job :: shell_job_t where
  "unused_job = \<lparr>job_id = 0, job_pid = 0, job_pgid = 0, job_state = JOB_RUNNING,
                 job_command = [], job_foreground = False\<rparr>"

definition finished_jobs :: "shell_job_t list" where
  "finished_jobs =
     \<lparr>job_id = 1, job_pid = 7, job_pgid = 7, job_state = JOB_DONE,
      job_command = ''sleep 1'', job_foreground = False\<rparr> # replicate 31 unused_job"

subsection \<open>Command registry, environment and dispatch\<close>

record shell_command_t =
  cmd_name :: string
  cmd_description :: string
  cmd_func :: nat
  cmd_builtin :: bool

record shell_env_t =
  env_name :: string
  env_value :: string
  env_defined :: bool

text \<open>
  The file's static variables. \<open>err_out\<close> collects what \<^verbatim>\<open>shell_error\<close> prints. A handler
  is a function pointer: \<open>cmd_func\<close> holds its address, and calling through it is the
  parameter \<open>call\<close> of type \<open>handler_call\<close>, which may change any static variable.
\<close>

record globals =
  shell_state :: shell_state_t
  shell_commands :: "shell_command_t list"
  shell_command_count :: int
  shell_jobs :: "shell_job_t list"
  shell_job_count :: int
  shell_env :: "shell_env_t list"
  err_out :: "string list"

type_synonym handler_call = "nat \<Rightarrow> int \<Rightarrow> string list \<Rightarrow> globals \<Rightarrow> int \<times> globals"

definition shell_register_command :: "globals \<Rightarrow> string \<Rightarrow> string \<Rightarrow> nat \<Rightarrow> int \<times> globals" where
  "shell_register_command g name desc func =
     (if shell_command_count g \<ge> 128 then (SYSERR, g)
      else
        (OK, g\<lparr> shell_commands := (shell_commands g)[nat (shell_command_count g) :=
                    (shell_commands g ! nat (shell_command_count g))
                      \<lparr> cmd_name := take (SHELL_MAX_CMD - 1) name,
                        cmd_description := take 127 desc,
                        cmd_func := func, cmd_builtin := True \<rparr>],
                shell_command_count := shell_command_count g + 1 \<rparr>))"

definition shell_find_command :: "globals \<Rightarrow> string \<Rightarrow> nat option" where
  "shell_find_command g name =
     first_slot (\<lambda>c. cmd_name c = name) (take (nat (shell_command_count g)) (shell_commands g))"

definition shell_getenv :: "globals \<Rightarrow> string \<Rightarrow> string option" where
  "shell_getenv g name =
     map_option (\<lambda>i. env_value (shell_env g ! i))
       (first_slot (\<lambda>e. env_defined e \<and> env_name e = name) (shell_env g))"

subsection \<open>Expansion\<close>

text \<open>
  \<open>decimal\<close> is \<^verbatim>\<open>snprintf(num, sizeof(num), "%d", n)\<close>; sixteen bytes hold every
  \<^verbatim>\<open>int\<close>. \<open>decimal_digits\<close> takes the number of digits it may still produce.
\<close>

fun decimal_digits :: "nat \<Rightarrow> nat \<Rightarrow> string" where
  "decimal_digits 0 n = []"
| "decimal_digits (Suc k) n =
     (if n < 10 then [char_of (48 + n)]
      else decimal_digits k (n div 10) @ [char_of (48 + n mod 10)])"

definition decimal :: "int \<Rightarrow> string" where
  "decimal n =
     (if n < 0 then CHR ''-'' # decimal_digits (Suc (nat (- n))) (nat (- n))
      else decimal_digits (Suc (nat n)) (nat n))"

definition char_code :: "char \<Rightarrow> nat" where
  "char_code c = of_char c"

definition is_digit :: "char \<Rightarrow> bool" where
  "is_digit c = (char_code (CHR ''0'') \<le> char_code c \<and> char_code c \<le> char_code (CHR ''9''))"

definition is_octal :: "char \<Rightarrow> bool" where
  "is_octal c = (char_code (CHR ''0'') \<le> char_code c \<and> char_code c \<le> char_code (CHR ''7''))"

definition is_lower_hex :: "char \<Rightarrow> bool" where
  "is_lower_hex c = (char_code (CHR ''a'') \<le> char_code c \<and> char_code c \<le> char_code (CHR ''f''))"

definition is_upper_hex :: "char \<Rightarrow> bool" where
  "is_upper_hex c = (char_code (CHR ''A'') \<le> char_code c \<and> char_code c \<le> char_code (CHR ''F''))"

definition isxdigit :: "char \<Rightarrow> bool" where
  "isxdigit c = (is_digit c \<or> is_lower_hex c \<or> is_upper_hex c)"

definition isalnum :: "char \<Rightarrow> bool" where
  "isalnum c =
     (is_digit c
      \<or> (char_code (CHR ''a'') \<le> char_code c \<and> char_code c \<le> char_code (CHR ''z''))
      \<or> (char_code (CHR ''A'') \<le> char_code c \<and> char_code c \<le> char_code (CHR ''Z'')))"

text \<open>
  The name loop of \<^verbatim>\<open>shell_expand\<close>: at most 63 characters, up to the closing brace
  (consumed) inside braces, up to the first character that is neither alphanumeric nor
  an underscore otherwise.
\<close>

fun scan_var_name :: "bool \<Rightarrow> string \<Rightarrow> string \<Rightarrow> string \<times> string" where
  "scan_var_name in_braces name [] = (name, [])"
| "scan_var_name in_braces name (c # cs) =
     (if length name < 63 then
        (if in_braces \<and> c = CHR ''}'' then (name, cs)
         else if \<not> in_braces \<and> \<not> isalnum c \<and> c \<noteq> CHR ''_'' then (name, c # cs)
         else scan_var_name in_braces (name @ [c]) cs)
      else (name, c # cs))"

lemma scan_var_name_length:
  "length (snd (scan_var_name b name s)) \<le> length s"
  by (induction b name s rule: scan_var_name.induct) auto

text \<open>
  \<^verbatim>\<open>if (i + len < size - 1) { strcpy(output + i, text); i += len; }\<close>: a substitution
  that does not fit is dropped.
\<close>

definition append_bounded :: "string \<Rightarrow> string \<Rightarrow> int \<Rightarrow> string" where
  "append_bounded out text sz =
     (if int (length out) + int (length text) < sz - 1 then out @ text else out)"

text \<open>
  One round of the loop of \<^verbatim>\<open>shell_expand\<close>, at a non-empty \<open>p\<close>. \<open>prev\<close> is the input
  character before \<open>p\<close> (\<open>None\<close> at the start of the input); the result is the new
  \<open>prev\<close>, the new \<open>p\<close> and the new output.
\<close>

definition expand_step ::
  "globals \<Rightarrow> int \<Rightarrow> char option \<Rightarrow> string \<Rightarrow> string \<Rightarrow> char option \<times> string \<times> string" where
  "expand_step g sz prev p out =
     (if hd p = CHR ''$'' then
        (let q = tl p in
         if q \<noteq> [] \<and> hd q = CHR ''?'' then
           (Some (hd q), tl q, append_bounded out (decimal (last_exit (shell_state g))) sz)
         else if q \<noteq> [] \<and> hd q = CHR ''$'' then
           (Some (hd q), tl q, append_bounded out (decimal (pid (shell_state g))) sz)
         else
           (let in_braces = (q \<noteq> [] \<and> hd q = CHR ''{'');
                q1 = (if in_braces then tl q else q);
                name = fst (scan_var_name in_braces [] q1);
                rest = snd (scan_var_name in_braces [] q1)
            in (Some (last (take (length p - length rest) p)), rest,
                (case shell_getenv g name of
                   Some v \<Rightarrow> append_bounded out v sz
                 | None \<Rightarrow> out))))
      else if hd p = CHR ''~'' \<and>
              (prev = None \<or> prev = Some (CHR '' '') \<or> prev = Some (CHR '':'')) then
        (Some (hd p), tl p,
         append_bounded out (case shell_getenv g ''HOME'' of Some h \<Rightarrow> h | None \<Rightarrow> ''/'') sz)
      else (Some (hd p), tl p, out @ [hd p]))"

lemma expand_step_decreases:
  assumes "p \<noteq> []"
  shows "length (fst (snd (expand_step g sz prev p out))) < length p"
proof -
  have a: "length (snd (scan_var_name b [] (tl (tl p)))) < length p" for b
    using scan_var_name_length [of b "[]" "tl (tl p)"] assms by (cases p) auto
  have b: "length (snd (scan_var_name b [] (tl p))) < length p" for b
    using scan_var_name_length [of b "[]" "tl p"] assms by (cases p) auto
  have c: "length (tl (tl p)) < length p" "length (tl p) < length p"
    using assms by (cases p; simp)+
  show ?thesis
    unfolding expand_step_def Let_def using assms a b c by simp
qed

function expand_loop :: "globals \<Rightarrow> int \<Rightarrow> char option \<Rightarrow> string \<Rightarrow> string \<Rightarrow> string" where
  "expand_loop g sz prev p out =
     (if p \<noteq> [] \<and> int (length out) < sz - 1 then
        (case expand_step g sz prev p out of
           (prev', p', out') \<Rightarrow> expand_loop g sz prev' p' out')
      else out)"
  by pat_completeness auto
termination
  by (relation "measure (\<lambda>(g, sz, prev, p, out). length p)")
    (auto simp: case_prod_beta expand_step_decreases)

declare expand_loop.simps [simp del]

definition shell_expand :: "globals \<Rightarrow> string \<Rightarrow> int \<Rightarrow> string" where
  "shell_expand g input sz = expand_loop g sz None input []"

subsection \<open>Executing a command line\<close>

text \<open>
  \<open>shell_dispatch\<close> is the second half of \<^verbatim>\<open>shell_execute\<close>, from the test
  \<^verbatim>\<open>argc == 0\<close> on: the lookup of \<^verbatim>\<open>argv[0]\<close>, the call through the handler pointer and
  the two assignments to \<^verbatim>\<open>shell_state.last_exit\<close>. \<open>argv\<close> holds the \<open>argc\<close> strings.
\<close>

definition shell_dispatch :: "handler_call \<Rightarrow> globals \<Rightarrow> int \<Rightarrow> string list \<Rightarrow> int \<times> globals" where
  "shell_dispatch call g argc argv =
     (if argc = 0 then (SHELL_OK, g)
      else
        (case shell_find_command g (argv ! 0) of
           Some i \<Rightarrow>
             (case call (cmd_func (shell_commands g ! i)) argc argv g of
                (r, g') \<Rightarrow> (r, g'\<lparr>shell_state := (shell_state g')\<lparr>last_exit := r\<rparr>\<rparr>))
         | None \<Rightarrow>
             (SHELL_NOT_FOUND,
              g\<lparr> err_out := err_out g @ [argv ! 0 @ '': command not found'' @ [NL]],
                 shell_state := (shell_state g)\<lparr>last_exit := SHELL_NOT_FOUND\<rparr> \<rparr>)))"

definition shell_execute :: "handler_call \<Rightarrow> globals \<Rightarrow> string \<Rightarrow> int \<times> globals" where
  "shell_execute call g line =
     (let p = dropWhile is_blank line in
      if p = [] \<or> hd p = CHR ''#'' then (SHELL_OK, g)
      else
        (let g1 = (if interactive (shell_state g)
                   then g\<lparr>shell_state := shell_history_add (shell_state g) (Some line)\<rparr>
                   else g);
             line_copy = take (SHELL_MAX_LINE - 1) line;
             expanded = shell_expand g1 line_copy (int SHELL_MAX_LINE);
             parsed = shell_parse_line expanded SHELL_MAX_ARGS
         in shell_dispatch call g1 (fst parsed) (argv_strings parsed)))"

text \<open>
  A registry with the two entries \<^verbatim>\<open>true\<close> and \<^verbatim>\<open>false\<close> at the handler addresses 1 and
  2, and handlers that return \<^verbatim>\<open>SHELL_OK\<close> and \<^verbatim>\<open>SHELL_ERROR\<close> as \<^verbatim>\<open>cmd_true\<close> and
  \<^verbatim>\<open>cmd_false\<close> do.
\<close>

definition sample_globals :: globals where
  "sample_globals =
     \<lparr> shell_state = \<lparr> cwd = ''/'', last_exit = 0, pid = 0, interactive = False,
                       shell_running = True, history = [], history_count = 0,
                       history_index = 0 \<rparr>,
       shell_commands =
         [\<lparr>cmd_name = ''true'', cmd_description = ''Return success'', cmd_func = 1,
           cmd_builtin = True\<rparr>,
          \<lparr>cmd_name = ''false'', cmd_description = ''Return failure'', cmd_func = 2,
           cmd_builtin = True\<rparr>],
       shell_command_count = 2, shell_jobs = [], shell_job_count = 0, shell_env = [],
       err_out = [] \<rparr>"

definition sample_call :: handler_call where
  "sample_call f argc argv g = (if f = 1 then (SHELL_OK, g) else (SHELL_ERROR, g))"

section \<open>Script interpreter\<close>

definition SCRIPT_MAX_VARS :: nat where "SCRIPT_MAX_VARS = 128"
definition SCRIPT_MAX_FUNCS :: nat where "SCRIPT_MAX_FUNCS = 64"
definition SCRIPT_MAX_STACK :: int where "SCRIPT_MAX_STACK = 256"
definition SCRIPT_VAR_NAME_LEN :: nat where "SCRIPT_VAR_NAME_LEN = 64"
definition SCRIPT_VAR_VAL_LEN :: nat where "SCRIPT_VAR_VAL_LEN = 256"
definition SCRIPT_MAX_LABELS :: nat where "SCRIPT_MAX_LABELS = 64"

text \<open>
  \<^verbatim>\<open>script_var_t\<close> holds its value in a union. The model keeps one field per member;
  a member is read only under the type tag it was written with. The \<^verbatim>\<open>void *value\<close>
  argument of \<^verbatim>\<open>script_set_var\<close> is a \<open>pointee\<close>: the address, and what stands there
  read as each of the types the function may read it as.
\<close>

datatype var_type_t =
  VAR_TYPE_INT | VAR_TYPE_STRING | VAR_TYPE_FLOAT | VAR_TYPE_ARRAY | VAR_TYPE_UNDEFINED

record var_value =
  int_val :: "32 word"
  float_val :: "64 word"
  str_val :: string
  array_val :: nat

record script_var_t =
  var_name :: string
  var_type :: var_type_t
  var_value :: var_value
  var_readonly :: bool
  var_exported :: bool
  var_defined :: bool

record script_func_t =
  func_name :: string
  func_body :: "string option"
  func_body_len :: int
  func_num_params :: int
  func_defined :: bool

record script_label_t =
  label_name :: string
  label_line_num :: int
  label_defined :: bool

record script_context_t =
  vars :: "script_var_t list"
  funcs :: "script_func_t list"
  labels :: "script_label_t list"
  var_count :: int
  func_count :: int
  label_count :: int
  line_num :: int
  running :: bool
  exit_code :: "32 word"
  loop_stack :: "int list"
  loop_sp :: int
  call_stack :: "int list"
  call_sp :: int
  stdin_fd :: int
  stdout_fd :: int
  stderr_fd :: int

record pointee =
  at_addr :: nat
  as_int32 :: "32 word"
  as_double :: "64 word"
  as_chars :: string

text \<open>
  \<^verbatim>\<open>script_reset_context\<close> rewrites the flags and counters and leaves names, values,
  line numbers and the two stacks' contents as they are. \<^verbatim>\<open>script_create_context\<close> is
  \<^verbatim>\<open>script_reset_context\<close> on fresh memory, whatever that holds.
\<close>

definition script_reset_context :: "script_context_t \<Rightarrow> script_context_t" where
  "script_reset_context ctx =
     ctx\<lparr> vars := map (\<lambda>v. v\<lparr>var_defined := False, var_type := VAR_TYPE_UNDEFINED,
                               var_readonly := False, var_exported := False\<rparr>) (vars ctx),
          var_count := 0,
          funcs := map (\<lambda>f. f\<lparr>func_defined := False, func_body := None\<rparr>) (funcs ctx),
          func_count := 0,
          labels := map (\<lambda>l. l\<lparr>label_defined := False\<rparr>) (labels ctx),
          label_count := 0,
          line_num := 0, running := False, exit_code := 0, loop_sp := 0, call_sp := 0,
          stdin_fd := 0, stdout_fd := 1, stderr_fd := 2 \<rparr>"

definition find_var :: "script_context_t \<Rightarrow> string \<Rightarrow> nat option" where
  "find_var ctx name = first_slot (\<lambda>v. var_defined v \<and> var_name v = name) (vars ctx)"

definition create_var :: "script_context_t \<Rightarrow> string \<Rightarrow> nat option \<times> script_context_t" where
  "create_var ctx name =
     (case find_var ctx name of
        Some i \<Rightarrow> (Some i, ctx)
      | None \<Rightarrow>
          (case first_slot (\<lambda>v. \<not> var_defined v) (vars ctx) of
             Some i \<Rightarrow>
               (Some i,
                ctx\<lparr> vars := (vars ctx)[i := (vars ctx ! i)
                        \<lparr> var_defined := True,
                          var_name := take (SCRIPT_VAR_NAME_LEN - 1) name,
                          var_type := VAR_TYPE_UNDEFINED,
                          var_readonly := False,
                          var_exported := False \<rparr>],
                     var_count := var_count ctx + 1 \<rparr>)
           | None \<Rightarrow> (None, ctx)))"

text \<open>
  \<open>store_value\<close> is the \<^verbatim>\<open>switch (type)\<close> of \<^verbatim>\<open>script_set_var\<close>; its default branch
  returns \<^verbatim>\<open>SYSERR\<close> after the type tag has been written.
\<close>

definition store_value :: "var_type_t \<Rightarrow> pointee \<Rightarrow> var_value \<Rightarrow> var_value option" where
  "store_value ty p u =
     (case ty of
        VAR_TYPE_INT \<Rightarrow> Some (u\<lparr>int_val := as_int32 p\<rparr>)
      | VAR_TYPE_FLOAT \<Rightarrow> Some (u\<lparr>float_val := as_double p\<rparr>)
      | VAR_TYPE_STRING \<Rightarrow> Some (u\<lparr>str_val := take (SCRIPT_VAR_VAL_LEN - 1) (as_chars p)\<rparr>)
      | VAR_TYPE_ARRAY \<Rightarrow> Some (u\<lparr>array_val := at_addr p\<rparr>)
      | VAR_TYPE_UNDEFINED \<Rightarrow> None)"

definition script_set_var ::
  "script_context_t \<Rightarrow> string option \<Rightarrow> var_type_t \<Rightarrow> pointee option \<Rightarrow> int \<times> script_context_t" where
  "script_set_var ctx name ty val =
     (case (name, val) of
        (Some n, Some p) \<Rightarrow>
          (case create_var ctx n of
             (None, ctx1) \<Rightarrow> (SYSERR, ctx1)
           | (Some i, ctx1) \<Rightarrow>
               (let var = vars ctx1 ! i in
                if var_readonly var then (SYSERR, ctx1)
                else
                  (case store_value ty p (var_value var) of
                     Some u \<Rightarrow>
                       (OK, ctx1\<lparr>vars := (vars ctx1)[i := var\<lparr>var_type := ty, var_value := u\<rparr>]\<rparr>)
                   | None \<Rightarrow>
                       (SYSERR, ctx1\<lparr>vars := (vars ctx1)[i := var\<lparr>var_type := ty\<rparr>]\<rparr>))))
      | _ \<Rightarrow> (SYSERR, ctx))"

text \<open>
  \<^verbatim>\<open>script_get_var\<close> writes through its two result pointers when they are not \<^verbatim>\<open>NULL\<close>
  (\<open>want_type\<close>, \<open>want_value\<close>); the model returns what it wrote.
\<close>

datatype stored = StInt "32 word" | StFloat "64 word" | StString string | StArray nat

definition load_value :: "script_var_t \<Rightarrow> stored option" where
  "load_value var =
     (case var_type var of
        VAR_TYPE_INT \<Rightarrow> Some (StInt (int_val (var_value var)))
      | VAR_TYPE_FLOAT \<Rightarrow> Some (StFloat (float_val (var_value var)))
      | VAR_TYPE_STRING \<Rightarrow> Some (StString (str_val (var_value var)))
      | VAR_TYPE_ARRAY \<Rightarrow> Some (StArray (array_val (var_value var)))
      | VAR_TYPE_UNDEFINED \<Rightarrow> None)"

definition script_get_var ::
  "script_context_t \<Rightarrow> string option \<Rightarrow> bool \<Rightarrow> bool \<Rightarrow> int \<times> var_type_t option \<times> stored option" where
  "script_get_var ctx name want_type want_value =
     (case name of
        None \<Rightarrow> (SYSERR, None, None)
      | Some n \<Rightarrow>
          (case find_var ctx n of
             None \<Rightarrow> (SYSERR, None, None)
           | Some i \<Rightarrow>
               (let var = vars ctx ! i;
                    t = (if want_type then Some (var_type var) else None)
                in if want_value then
                     (case load_value var of
                        Some w \<Rightarrow> (OK, t, Some w)
                      | None \<Rightarrow> (SYSERR, t, None))
                   else (OK, t, None))))"

definition script_unset_var :: "script_context_t \<Rightarrow> string option \<Rightarrow> int \<times> script_context_t" where
  "script_unset_var ctx name =
     (case name of
        None \<Rightarrow> (SYSERR, ctx)
      | Some n \<Rightarrow>
          (case find_var ctx n of
             None \<Rightarrow> (SYSERR, ctx)
           | Some i \<Rightarrow>
               if var_readonly (vars ctx ! i) then (SYSERR, ctx)
               else (OK, ctx\<lparr> vars := (vars ctx)[i := (vars ctx ! i)\<lparr>var_defined := False\<rparr>],
                              var_count := var_count ctx - 1 \<rparr>)))"

definition script_var_exists :: "script_context_t \<Rightarrow> string \<Rightarrow> bool" where
  "script_var_exists ctx name = (find_var ctx name \<noteq> None)"


text \<open>
  \<open>mem_ok\<close> tells whether \<^verbatim>\<open>getmem\<close> returns memory. \<open>store_body\<close> is the tail of
  \<^verbatim>\<open>script_define_func\<close> from \<^verbatim>\<open>func->body_len = strlen(body) + 1\<close> on.
\<close>

definition find_func :: "script_context_t \<Rightarrow> string \<Rightarrow> nat option" where
  "find_func ctx name = first_slot (\<lambda>f. func_defined f \<and> func_name f = name) (funcs ctx)"

definition store_body ::
  "bool \<Rightarrow> script_context_t \<Rightarrow> nat \<Rightarrow> string \<Rightarrow> int \<Rightarrow> int \<times> script_context_t" where
  "store_body mem_ok ctx i body num_params =
     (let f = (funcs ctx ! i)\<lparr>func_body_len := int (length body) + 1\<rparr> in
      if mem_ok then
        (OK, ctx\<lparr>funcs := (funcs ctx)[i := f\<lparr>func_body := Some body,
                                                  func_num_params := num_params\<rparr>]\<rparr>)
      else
        (SYSERR, ctx\<lparr>funcs := (funcs ctx)[i := f\<lparr>func_body := None,
                                                      func_defined := False\<rparr>]\<rparr>))"

definition script_define_func ::
  "bool \<Rightarrow> script_context_t \<Rightarrow> string option \<Rightarrow> string option \<Rightarrow> int \<Rightarrow> int \<times> script_context_t" where
  "script_define_func mem_ok ctx name body num_params =
     (case (name, body) of
        (Some n, Some b) \<Rightarrow>
          (case find_func ctx n of
             Some i \<Rightarrow> store_body mem_ok ctx i b num_params
           | None \<Rightarrow>
               (case first_slot (\<lambda>f. \<not> func_defined f) (funcs ctx) of
                  Some i \<Rightarrow>
                    store_body mem_ok
                      (ctx\<lparr> funcs := (funcs ctx)[i := (funcs ctx ! i)
                               \<lparr> func_defined := True,
                                 func_name := take (SCRIPT_VAR_NAME_LEN - 1) n \<rparr>],
                            func_count := func_count ctx + 1 \<rparr>)
                      i b num_params
                | None \<Rightarrow> (SYSERR, ctx)))
      | _ \<Rightarrow> (SYSERR, ctx))"

text \<open>
  \<^verbatim>\<open>script_eval_int\<close>: blanks, a sign, then a variable reference or a literal. For a
  reference it calls \<^verbatim>\<open>script_get_var(ctx, var_name, &type, &result)\<close> with the address
  of its local \<^verbatim>\<open>int32_t result\<close>, an object of four bytes, and \<^verbatim>\<open>script_get_var\<close> writes
  the variable's value there whatever its type: four bytes for an integer, a
  \<^verbatim>\<open>double\<close> for a float, the string and its terminator for a string (\<^verbatim>\<open>strcpy\<close>), a
  pointer for an array. \<open>stored_bytes\<close> is the number of bytes written. A write of more
  than four bytes runs over the stack object; what the program does from there on is not
  defined, and the model stops with the fault \<open>Overrun\<close>. When the write fits, the
  value counts only if the variable was found and is an integer.

  \<open>sizeof_pointer\<close> is the width of \<^verbatim>\<open>void *\<close> on the 64-bit host of the standalone
  build; with pointers of four bytes the array case fits.
\<close>

datatype fault = Overrun

definition sizeof_pointer :: nat where "sizeof_pointer = 8"

fun stored_bytes :: "stored \<Rightarrow> nat" where
  "stored_bytes (StInt v) = 4"
| "stored_bytes (StFloat v) = 8"
| "stored_bytes (StString s) = length s + 1"
| "stored_bytes (StArray a) = sizeof_pointer"

fun parse_hex :: "32 word \<Rightarrow> string \<Rightarrow> 32 word" where
  "parse_hex r [] = r"
| "parse_hex r (c # cs) =
     (if isxdigit c then
        parse_hex
          (if is_digit c then r * 16 + of_nat (char_code c - char_code (CHR ''0''))
           else if is_lower_hex c then r * 16 + of_nat (char_code c - char_code (CHR ''a'') + 10)
           else if is_upper_hex c then r * 16 + of_nat (char_code c - char_code (CHR ''A'') + 10)
           else r * 16) cs
      else r)"

fun parse_octal :: "32 word \<Rightarrow> string \<Rightarrow> 32 word" where
  "parse_octal r [] = r"
| "parse_octal r (c # cs) =
     (if is_octal c then parse_octal (r * 8 + of_nat (char_code c - char_code (CHR ''0''))) cs
      else r)"

fun parse_decimal :: "32 word \<Rightarrow> string \<Rightarrow> 32 word" where
  "parse_decimal r [] = r"
| "parse_decimal r (c # cs) =
     (if is_digit c then parse_decimal (r * 10 + of_nat (char_code c - char_code (CHR ''0''))) cs
      else r)"

definition parse_number :: "string \<Rightarrow> 32 word" where
  "parse_number p =
     (case p of
        c # d # rest \<Rightarrow>
          (if c = CHR ''0'' \<and> (d = CHR ''x'' \<or> d = CHR ''X'') then parse_hex 0 rest
           else if c = CHR ''0'' \<and> is_octal d then parse_octal 0 (d # rest)
           else parse_decimal 0 p)
      | _ \<Rightarrow> parse_decimal 0 p)"

definition script_eval_int :: "script_context_t \<Rightarrow> string \<Rightarrow> fault + 32 word" where
  "script_eval_int ctx expr =
     (let p0 = dropWhile is_blank expr;
          negative = (p0 \<noteq> [] \<and> hd p0 = CHR ''-'');
          p = (if p0 \<noteq> [] \<and> (hd p0 = CHR ''-'' \<or> hd p0 = CHR ''+'') then tl p0 else p0)
      in if p \<noteq> [] \<and> hd p = CHR ''$'' then
           (let var_name = take 63 (takeWhile (\<lambda>c. isalnum c \<or> c = CHR ''_'') (tl p)) in
            case script_get_var ctx (Some var_name) True True of
              (st, ty, Some w) \<Rightarrow>
                if 4 < stored_bytes w then Inl Overrun
                else
                  (case w of
                     StInt result \<Rightarrow>
                       if st = OK \<and> ty = Some VAR_TYPE_INT
                       then Inr (if negative then - result else result) else Inr 0
                   | _ \<Rightarrow> Inr 0)
            | (st, ty, None) \<Rightarrow> Inr 0)
         else
           (let result = parse_number p in Inr (if negative then - result else result)))"

definition script_eval_bool :: "script_context_t \<Rightarrow> string \<Rightarrow> fault + bool" where
  "script_eval_bool ctx expr =
     (let p = dropWhile is_blank expr in
      if p = [] then Inr False
      else if p = ''true'' \<or> p = ''TRUE'' \<or> p = ''1'' then Inr True
      else if p = ''false'' \<or> p = ''FALSE'' \<or> p = ''0'' then Inr False
      else
        (case script_eval_int ctx expr of
           Inl f \<Rightarrow> Inl f
         | Inr val \<Rightarrow> Inr (val \<noteq> 0)))"

definition find_label :: "script_context_t \<Rightarrow> string \<Rightarrow> nat option" where
  "find_label ctx name = first_slot (\<lambda>l. label_defined l \<and> label_name l = name) (labels ctx)"

definition create_label :: "script_context_t \<Rightarrow> string \<Rightarrow> int \<Rightarrow> int \<times> script_context_t" where
  "create_label ctx name ln =
     (case find_label ctx name of
        Some i \<Rightarrow>
          (OK, ctx\<lparr>labels := (labels ctx)[i := (labels ctx ! i)\<lparr>label_line_num := ln\<rparr>]\<rparr>)
      | None \<Rightarrow>
          (case first_slot (\<lambda>l. \<not> label_defined l) (labels ctx) of
             Some i \<Rightarrow>
               (OK, ctx\<lparr> labels := (labels ctx)[i := (labels ctx ! i)
                               \<lparr> label_defined := True,
                                 label_name := take (SCRIPT_VAR_NAME_LEN - 1) name,
                                 label_line_num := ln \<rparr>],
                          label_count := label_count ctx + 1 \<rparr>)
           | None \<Rightarrow> (SYSERR, ctx)))"

definition script_goto_label :: "script_context_t \<Rightarrow> string option \<Rightarrow> int \<times> script_context_t" where
  "script_goto_label ctx label =
     (case label of
        None \<Rightarrow> (SYSERR, ctx)
      | Some l \<Rightarrow>
          (case find_label ctx l of
             None \<Rightarrow> (SYSERR, ctx)
           | Some i \<Rightarrow> (OK, ctx\<lparr>line_num := label_line_num (labels ctx ! i)\<rparr>)))"

definition script_break :: "script_context_t \<Rightarrow> int \<times> script_context_t" where
  "script_break ctx =
     (if loop_sp ctx = 0 then (SYSERR, ctx)
      else (OK, ctx\<lparr>line_num := loop_stack ctx ! nat (loop_sp ctx - 1)\<rparr>))"

definition script_continue :: "script_context_t \<Rightarrow> int \<times> script_context_t" where
  "script_continue ctx =
     (if loop_sp ctx = 0 then (SYSERR, ctx)
      else (OK, ctx\<lparr>line_num := loop_stack ctx ! nat (loop_sp ctx - 1) - 1\<rparr>))"

definition script_return :: "script_context_t \<Rightarrow> 32 word \<Rightarrow> int \<times> script_context_t" where
  "script_return ctx v = (OK, ctx\<lparr>exit_code := v, running := False\<rparr>)"


text \<open>
  \<^verbatim>\<open>execute_line\<close>, in the source's order: blank and comment lines, the label before
  the first colon, the assignment at the first equals sign, the keywords, and a bare
  expression. \<open>int_object v\<close> is \<^verbatim>\<open>&val\<close>, \<open>string_object s\<close> is the pointer \<^verbatim>\<open>p\<close>.
  A fault of an evaluation ends the line, the script and the call that runs it: these
  functions return \<open>Inl\<close> the fault, or \<open>Inr\<close> the status and the context.
\<close>

definition int_object :: "32 word \<Rightarrow> pointee" where
  "int_object v = \<lparr>at_addr = 0, as_int32 = v, as_double = 0, as_chars = []\<rparr>"

definition string_object :: "string \<Rightarrow> pointee" where
  "string_object s = \<lparr>at_addr = 0, as_int32 = 0, as_double = 0, as_chars = s\<rparr>"

definition has_label :: "string \<Rightarrow> bool" where
  "has_label p = (CHR '':'' \<in> set p \<and> hd p \<noteq> CHR '':'')"

definition label_part :: "script_context_t \<Rightarrow> string \<Rightarrow> script_context_t \<times> string" where
  "label_part ctx p =
     (if has_label p then
        (let label = takeWhile (\<lambda>c. c \<noteq> CHR '':'') p;
             ctx1 = (if length label < SCRIPT_VAR_NAME_LEN
                     then snd (create_label ctx label (line_num ctx)) else ctx)
         in (ctx1, dropWhile is_blank (tl (dropWhile (\<lambda>c. c \<noteq> CHR '':'') p))))
      else (ctx, p))"

definition is_assignment :: "string \<Rightarrow> bool" where
  "is_assignment p =
     (let lhs = takeWhile (\<lambda>c. c \<noteq> CHR ''='') p in
      CHR ''='' \<in> set p \<and> lhs \<noteq> [] \<and>
      last lhs \<noteq> CHR ''!'' \<and> last lhs \<noteq> CHR ''<'' \<and> last lhs \<noteq> CHR ''>'' \<and>
      length (rev (dropWhile is_blank (rev lhs))) < SCRIPT_VAR_NAME_LEN)"

definition assign_part :: "script_context_t \<Rightarrow> string \<Rightarrow> fault + int \<times> script_context_t" where
  "assign_part ctx p =
     (let var_name = rev (dropWhile is_blank (rev (takeWhile (\<lambda>c. c \<noteq> CHR ''='') p)));
          v = dropWhile is_blank (tl (dropWhile (\<lambda>c. c \<noteq> CHR ''='') p))
      in if v \<noteq> [] \<and> (is_digit (hd v) \<or> hd v = CHR ''-'' \<or> hd v = CHR ''+'') then
           (case script_eval_int ctx v of
              Inl f \<Rightarrow> Inl f
            | Inr val \<Rightarrow>
                Inr (OK, snd (script_set_var ctx (Some var_name) VAR_TYPE_INT
                                (Some (int_object val)))))
         else
           Inr (OK, snd (script_set_var ctx (Some var_name) VAR_TYPE_STRING
                           (Some (string_object v)))))"

definition keyword_part :: "script_context_t \<Rightarrow> string \<Rightarrow> fault + int \<times> script_context_t" where
  "keyword_part ctx p =
     (if take 3 p = ''if '' then
        (case script_eval_bool ctx (drop 3 p) of
           Inl f \<Rightarrow> Inl f
         | Inr condition \<Rightarrow> Inr (OK, ctx))
      else if take 6 p = ''while '' then
        (case script_eval_bool ctx (drop 6 p) of
           Inl f \<Rightarrow> Inl f
         | Inr condition \<Rightarrow> Inr (OK, ctx))
      else if take 4 p = ''for '' then Inr (OK, ctx)
      else if p = ''break'' then Inr (script_break ctx)
      else if p = ''continue'' then Inr (script_continue ctx)
      else if take 6 p = ''return'' then
        (let q = dropWhile is_blank (drop 6 p) in
         if q \<noteq> [] then
           (case script_eval_int ctx q of
              Inl f \<Rightarrow> Inl f
            | Inr val \<Rightarrow> Inr (script_return ctx val))
         else Inr (script_return ctx 0))
      else if take 5 p = ''goto '' then
        Inr (script_goto_label ctx (Some (dropWhile is_blank (drop 5 p))))
      else
        (case script_eval_int ctx p of
           Inl f \<Rightarrow> Inl f
         | Inr v \<Rightarrow> Inr (OK, ctx)))"

definition execute_line :: "script_context_t \<Rightarrow> string \<Rightarrow> fault + int \<times> script_context_t" where
  "execute_line ctx line =
     (let p = dropWhile is_blank line in
      if p = [] \<or> hd p = CHR ''#'' then Inr (OK, ctx)
      else
        (case label_part ctx p of
           (ctx1, p1) \<Rightarrow>
             if has_label p \<and> p1 = [] then Inr (OK, ctx1)
             else if is_assignment p1 then assign_part ctx1 p1
             else keyword_part ctx1 p1))"

definition script_execute_line ::
  "script_context_t \<Rightarrow> string option \<Rightarrow> fault + int \<times> script_context_t" where
  "script_execute_line ctx line =
     (case line of None \<Rightarrow> Inr (SYSERR, ctx) | Some l \<Rightarrow> execute_line ctx l)"

text \<open>
  \<^verbatim>\<open>script_execute\<close> cuts the script with \<^verbatim>\<open>strtok_r(..., "\\n", ...)\<close>: the lines are the
  non-empty runs between newlines. \<open>run_lines\<close> is its loop
  \<^verbatim>\<open>while (line != NULL && ctx->running)\<close>.
\<close>

fun strtok_lines :: "string \<Rightarrow> string \<Rightarrow> string list" where
  "strtok_lines cur [] = (if cur = [] then [] else [cur])"
| "strtok_lines cur (c # cs) =
     (if c = NL then (if cur = [] then strtok_lines [] cs else cur # strtok_lines [] cs)
      else strtok_lines (cur @ [c]) cs)"

fun run_lines :: "script_context_t \<Rightarrow> string list \<Rightarrow> fault + script_context_t" where
  "run_lines ctx [] = Inr ctx"
| "run_lines ctx (l # ls) =
     (if running ctx then
        (case execute_line (ctx\<lparr>line_num := line_num ctx + 1\<rparr>) l of
           Inl f \<Rightarrow> Inl f
         | Inr (result, ctx') \<Rightarrow> if result \<noteq> OK then Inr ctx' else run_lines ctx' ls)
      else Inr ctx)"

definition script_execute ::
  "bool \<Rightarrow> script_context_t \<Rightarrow> string option \<Rightarrow> fault + int \<times> script_context_t" where
  "script_execute mem_ok ctx script =
     (case script of
        None \<Rightarrow> Inr (SYSERR, ctx)
      | Some s \<Rightarrow>
          if \<not> mem_ok then Inr (SYSERR, ctx)
          else
            (case run_lines (ctx\<lparr>running := True, line_num := 0\<rparr>) (strtok_lines [] s) of
               Inl f \<Rightarrow> Inl f
             | Inr ctx' \<Rightarrow> Inr (sint (exit_code ctx'), ctx'\<lparr>running := False\<rparr>)))"

definition script_execute_file :: "script_context_t \<Rightarrow> string option \<Rightarrow> int \<times> script_context_t" where
  "script_execute_file ctx filename = (SYSERR, ctx)"

text \<open>
  \<^verbatim>\<open>script_call_func\<close>; \<open>argv\<close> holds the \<^verbatim>\<open>argc\<close> argument pointers, \<open>param_name i\<close> is
  \<^verbatim>\<open>snprintf(param_name, 32, "arg%d", i)\<close>.
\<close>

definition param_name :: "nat \<Rightarrow> string" where
  "param_name i = take 31 (''arg'' @ decimal_digits (Suc i) i)"

fun bind_params :: "script_context_t \<Rightarrow> nat \<Rightarrow> nat \<Rightarrow> string option list \<Rightarrow> script_context_t" where
  "bind_params ctx i 0 argv = ctx"
| "bind_params ctx i (Suc k) argv =
     bind_params
       (snd (script_set_var ctx (Some (param_name i)) VAR_TYPE_STRING
               (map_option string_object (argv ! i))))
       (Suc i) k argv"

definition script_call_func ::
  "bool \<Rightarrow> script_context_t \<Rightarrow> string option \<Rightarrow> string option list \<Rightarrow>
   fault + int \<times> script_context_t" where
  "script_call_func mem_ok ctx name argv =
     (case name of
        None \<Rightarrow> Inr (SYSERR, ctx)
      | Some n \<Rightarrow>
          (case find_func ctx n of
             None \<Rightarrow> Inr (SYSERR, ctx)
           | Some i \<Rightarrow>
               if call_sp ctx \<ge> SCRIPT_MAX_STACK then Inr (SYSERR, ctx)
               else
                 (let func = funcs ctx ! i;
                      ctx1 = ctx\<lparr> call_stack := (call_stack ctx)[nat (call_sp ctx) := line_num ctx],
                                  call_sp := call_sp ctx + 1 \<rparr>;
                      ctx2 = bind_params ctx1 0
                               (nat (min (func_num_params func) (int (length argv)))) argv
                  in case script_execute mem_ok ctx2 (func_body func) of
                       Inl f \<Rightarrow> Inl f
                     | Inr (result, ctx3) \<Rightarrow>
                         Inr (result,
                              if call_sp ctx3 > 0
                              then ctx3\<lparr> line_num := call_stack ctx3 ! nat (call_sp ctx3 - 1),
                                         call_sp := call_sp ctx3 - 1 \<rparr>
                              else ctx3))))"

text \<open>
  Memory with every byte zero, laid out as a context: 128 variable slots, 64 function
  slots, 64 label slots and two stacks of 256 entries.
\<close>

definition zero_context :: script_context_t where
  "zero_context =
     \<lparr> vars = replicate SCRIPT_MAX_VARS
         \<lparr> var_name = [], var_type = VAR_TYPE_INT,
           var_value = \<lparr>int_val = 0, float_val = 0, str_val = [], array_val = 0\<rparr>,
           var_readonly = False, var_exported = False, var_defined = False \<rparr>,
       funcs = replicate SCRIPT_MAX_FUNCS
         \<lparr> func_name = [], func_body = None, func_body_len = 0, func_num_params = 0,
           func_defined = False \<rparr>,
       labels = replicate SCRIPT_MAX_LABELS
         \<lparr> label_name = [], label_line_num = 0, label_defined = False \<rparr>,
       var_count = 0, func_count = 0, label_count = 0, line_num = 0, running = False,
       exit_code = 0, loop_stack = replicate 256 0, loop_sp = 0,
       call_stack = replicate 256 0, call_sp = 0,
       stdin_fd = 0, stdout_fd = 0, stderr_fd = 0 \<rparr>"

text \<open>A context with one variable, an integer that is read-only.\<close>

definition readonly_context :: script_context_t where
  "readonly_context =
     zero_context\<lparr> vars :=
       \<lparr> var_name = ''PI'', var_type = VAR_TYPE_INT,
         var_value = \<lparr>int_val = 3, float_val = 0, str_val = [], array_val = 0\<rparr>,
         var_readonly = True, var_exported = False, var_defined = True \<rparr>
       # replicate 127 (hd (vars zero_context)),
       var_count := 1 \<rparr>"

text \<open>A context with one variable, the string \<^verbatim>\<open>ZZZZ\<close>: its variables are what
  the line \<^verbatim>\<open>s = ZZZZ\<close> makes of those of \<open>zero_context\<close>.\<close>

definition string_context :: script_context_t where
  "string_context =
     zero_context\<lparr> vars :=
       \<lparr> var_name = ''s'', var_type = VAR_TYPE_STRING,
         var_value = \<lparr>int_val = 0, float_val = 0, str_val = ''ZZZZ'', array_val = 0\<rparr>,
         var_readonly = False, var_exported = False, var_defined = True \<rparr>
       # replicate 127 (hd (vars zero_context)),
       var_count := 1 \<rparr>"

text \<open>The contexts a caller can hold: a created or reset one, and what the public
  functions make of it when they return. \<^verbatim>\<open>script_get_var\<close>, \<^verbatim>\<open>script_var_exists\<close>
  and the \<^verbatim>\<open>script_eval_*\<close> functions only read the context.\<close>

inductive reachable :: "script_context_t \<Rightarrow> bool" where
  reach_reset: "reachable (script_reset_context ctx)"
| reach_set_var: "reachable ctx \<Longrightarrow> reachable (snd (script_set_var ctx name ty val))"
| reach_unset_var: "reachable ctx \<Longrightarrow> reachable (snd (script_unset_var ctx name))"
| reach_define_func:
    "reachable ctx \<Longrightarrow> reachable (snd (script_define_func mem_ok ctx name body n))"
| reach_call_func:
    "reachable ctx \<Longrightarrow> script_call_func mem_ok ctx name argv = Inr (r, ctx') \<Longrightarrow>
     reachable ctx'"
| reach_goto_label: "reachable ctx \<Longrightarrow> reachable (snd (script_goto_label ctx label))"
| reach_break: "reachable ctx \<Longrightarrow> reachable (snd (script_break ctx))"
| reach_continue: "reachable ctx \<Longrightarrow> reachable (snd (script_continue ctx))"
| reach_return: "reachable ctx \<Longrightarrow> reachable (snd (script_return ctx v))"
| reach_execute_line:
    "reachable ctx \<Longrightarrow> script_execute_line ctx line = Inr (r, ctx') \<Longrightarrow> reachable ctx'"
| reach_execute:
    "reachable ctx \<Longrightarrow> script_execute mem_ok ctx script = Inr (r, ctx') \<Longrightarrow> reachable ctx'"
| reach_execute_file: "reachable ctx \<Longrightarrow> reachable (snd (script_execute_file ctx filename))"

text \<open>The label a line defines: the text before its first colon, when
  \<^verbatim>\<open>execute_line\<close> gets as far as the label test and the test succeeds.\<close>

definition line_label :: "string \<Rightarrow> string option" where
  "line_label line =
     (let p = dropWhile is_blank line in
      if p \<noteq> [] \<and> hd p \<noteq> CHR ''#'' \<and> has_label p
      then Some (takeWhile (\<lambda>c. c \<noteq> CHR '':'') p) else None)"

definition label_room :: "script_context_t \<Rightarrow> string \<Rightarrow> bool" where
  "label_room ctx l =
     (find_label ctx l \<noteq> None \<or> first_slot (\<lambda>x. \<not> label_defined x) (labels ctx) \<noteq> None)"

section \<open>Properties\<close>

lemma glob_examples:
  "expr_match_glob ''a*c'' ''abc''" "expr_match_glob ''a*c'' ''ac''"
  "expr_match_glob ''a?c'' ''abc''" "\<not> expr_match_glob ''a?c'' ''ac''"
  by simp_all

text \<open>
  Claim C10. For every pattern and every subject string, \<^verbatim>\<open>expr_match_regex\<close> returns
  exactly what \<^verbatim>\<open>expr_match_glob\<close> returns: the regex entry point is the glob matcher.
\<close>

theorem regex_is_glob:
  "expr_match_regex pattern str = expr_match_glob pattern str"
  by (simp add: expr_match_regex_def)

subsection \<open>The splitter\<close>


lemma scan_token_escaped:
  "scan_token tok inq qc (escape_all s @ rest) = scan_token (tok @ s) inq qc rest"
  by (induction s arbitrary: tok) (simp_all add: escape_all_def)

lemma scan_token_quoted:
  "q \<notin> set s \<Longrightarrow> BSL \<notin> set s \<Longrightarrow>
   scan_token tok True q (s @ rest) = scan_token (tok @ s) True q rest"
  by (induction s arbitrary: tok) auto

lemma scan_token_plain:
  "plain_chars w \<Longrightarrow>
   scan_token tok False qc (w @ rest) = scan_token (tok @ w) False qc rest"
  by (induction w arbitrary: tok) (auto simp: plain_chars_def)

lemma parse_example_quotes: "argv_list (shell_parse_line (''a '' @ [DQ] @ ''b c'' @ [DQ] @ '' d'') 32) = [PTR ''a'', PTR ''b c'', PTR ''d'', NULLP]"
  by (simp add: shell_parse_line_def argv_list_def is_blank_def upt_rec parse_loop.simps)

lemma parse_example_escape: "argv_list (shell_parse_line (''a'' @ [BSL] @ '' b'') 32) = [PTR ''a b'', NULLP]"
  by (simp add: shell_parse_line_def argv_list_def is_blank_def parse_loop.simps)

lemma parse_escaped:
  assumes "s \<noteq> []" "2 \<le> m"
  shows "argv_list (shell_parse_line (escape_all s) m) = [PTR s, NULLP]"
proof -
  obtain c s' where s: "s = c # s'" using assms(1) by (cases s) auto
  have e: "escape_all s = BSL # c # escape_all s'" by (simp add: s escape_all_def)
  have sc: "scan_token [] False (CHR 0x00) (escape_all s) = (s, [], False, CHR 0x00)"
    using scan_token_escaped [of "[]" False "CHR 0x00" s "[]"] by simp
  have "parse_loop m (escape_all s) False (CHR 0x00) 0 Map.empty = (1, [0 \<mapsto> Some s])"
    using assms(2) sc by (subst parse_loop.simps) (simp add: e is_blank_def parse_loop.simps)
  then show ?thesis by (simp add: shell_parse_line_def argv_list_def)
qed

lemma parse_quoted:
  assumes "q = DQ \<or> q = SQ" "q \<notin> set s" "BSL \<notin> set s" "2 \<le> m"
  shows "argv_list (shell_parse_line ([q] @ s @ [q]) m) = [PTR s, NULLP]"
proof -
  have sc: "scan_token [] False (CHR 0x00) (q # s @ [q]) = (s, [], False, q)"
    using assms(1) scan_token_quoted [OF assms(2,3), of "[]" "[q]"] by auto
  have "parse_loop m (q # s @ [q]) False (CHR 0x00) 0 Map.empty = (1, [0 \<mapsto> Some s])"
    using assms(1,4) sc by (subst parse_loop.simps) (auto simp add: is_blank_def parse_loop.simps)
  then show ?thesis by (simp add: shell_parse_line_def argv_list_def)
qed

lemma parse_quoted_escaped:
  assumes "q = DQ \<or> q = SQ" "2 \<le> m"
  shows "argv_list (shell_parse_line ([q] @ escape_all s @ [q]) m) = [PTR s, NULLP]"
proof -
  have sc: "scan_token [] False (CHR 0x00) (q # escape_all s @ [q]) = (s, [], False, q)"
    using assms(1) scan_token_escaped [of "[]" True q s "[q]"] by auto
  have "parse_loop m (q # escape_all s @ [q]) False (CHR 0x00) 0 Map.empty = (1, [0 \<mapsto> Some s])"
    using assms sc by (subst parse_loop.simps) (auto simp add: is_blank_def parse_loop.simps)
  then show ?thesis by (simp add: shell_parse_line_def argv_list_def)
qed

lemma parse_two_words:
  assumes "plain_word v" "plain_word w" "is_blank b" "3 \<le> m"
  shows "argv_list (shell_parse_line (v @ [b] @ w) m) = [PTR v, PTR w, NULLP]"
proof -
  have pv: "plain_chars v" and pw: "plain_chars w"
    using assms(1,2) by (simp_all add: plain_word_def)
  have dv: "dropWhile is_blank (v @ b # w) = v @ b # w" and hv: "hd (v @ b # w) \<noteq> CHR ''#''"
    using assms(1) by (cases v; simp add: plain_word_def plain_chars_def)+
  have dw: "dropWhile is_blank w = w" and hw: "hd w \<noteq> CHR ''#''" and wn: "w \<noteq> []"
    using assms(2) by (cases w; simp add: plain_word_def plain_chars_def)+
  have s1: "scan_token [] False qc (v @ b # w) = (v, b # w, False, qc)" for qc
    using scan_token_plain [OF pv, of "[]" qc "b # w"] assms(3) by (auto simp: is_blank_def)
  have s2: "scan_token [] False qc w = (w, [], False, qc)" for qc
    using scan_token_plain [OF pw, of "[]" qc "[]"] by simp
  have l2: "parse_loop m w False (CHR 0x00) 1 [0 \<mapsto> Some v] = (2, [0 \<mapsto> Some v, 1 \<mapsto> Some w])"
    using assms(4) wn hw by (subst parse_loop.simps) (simp add: dw s2 parse_loop.simps [of _ "[]"])
  have "parse_loop m (v @ b # w) False (CHR 0x00) 0 Map.empty = (2, [0 \<mapsto> Some v, 1 \<mapsto> Some w])"
    using assms(4) hv by (subst parse_loop.simps) (simp add: dv s1 l2)
  then show ?thesis by (simp add: shell_parse_line_def argv_list_def upt_rec)
qed

lemma parse_loop_bounds:
  "parse_loop m p inq qc argc argv = (argc', argv') \<Longrightarrow> 0 \<le> argc \<Longrightarrow>
   argc \<le> argc' \<and> (argc' = argc \<or> argc' \<le> m - 1) \<and>
   dom argv' = dom argv \<union> {nat argc ..< nat argc'}"
proof (induction m p inq qc argc argv rule: parse_loop.induct)
  case (1 m p inq qc argc argv)
  show ?case
  proof (cases "p \<noteq> [] \<and> argc < m - 1 \<and> dropWhile is_blank p \<noteq> [] \<and>
      \<not> (hd (dropWhile is_blank p) = CHR ''#'' \<and> \<not> inq)")
    case False
    then show ?thesis using "1.prems"
      by (subst (asm) parse_loop.simps) (auto simp: Let_def split: if_splits)
  next
    case True
    obtain tok p2 inq' qc' where sc:
      "scan_token [] inq qc (dropWhile is_blank p) = (tok, p2, inq', qc')"
      by (cases "scan_token [] inq qc (dropWhile is_blank p)") auto
    have "parse_loop m p inq qc argc argv =
        parse_loop m (if p2 \<noteq> [] then tl p2 else p2) inq' qc' (argc + 1)
          (argv(nat argc \<mapsto> Some tok))"
      using True sc by (subst parse_loop.simps) (auto simp add: Let_def)
    then have rec: "parse_loop m (if p2 \<noteq> [] then tl p2 else p2) inq' qc' (argc + 1)
        (argv(nat argc \<mapsto> Some tok)) = (argc', argv')"
      using "1.prems"(1) by simp
    have ih: "argc + 1 \<le> argc' \<and> (argc' = argc + 1 \<or> argc' \<le> m - 1) \<and>
        dom argv' = dom (argv(nat argc \<mapsto> Some tok)) \<union> {nat (argc + 1) ..< nat argc'}"
    proof (rule "1.IH" [OF _ refl _ _ sc [symmetric] refl refl rec])
      show "p \<noteq> [] \<and> argc < m - 1" using True by simp
      show "dropWhile is_blank p \<noteq> []" using True by simp
      show "\<not> (hd (dropWhile is_blank p) = CHR ''#'' \<and> \<not> inq)" using True by simp
      show "0 \<le> argc + 1" using "1.prems"(2) by simp
    qed
    have d: "dom (argv(nat argc \<mapsto> Some tok)) = insert (nat argc) (dom argv)"
      by simp
    have e: "{nat argc ..< nat argc'} = insert (nat argc) {nat (argc + 1) ..< nat argc'}"
      using ih "1.prems"(2) by auto
    have "dom argv' = dom argv \<union> {nat argc ..< nat argc'}"
      using ih unfolding d e by blast
    moreover have "argc \<le> argc'" "argc' = argc \<or> argc' \<le> m - 1"
      using ih True by auto
    ultimately show ?thesis by blast
  qed
qed

lemma parse_line_safe:
  assumes "1 \<le> m" and "shell_parse_line line m = (argc, argv)"
  shows "0 \<le> argc \<and> argc < m \<and> dom argv = {0 .. nat argc} \<and> argv (nat argc) = Some None"
proof -
  obtain a av where pl: "parse_loop m line False (CHR 0x00) 0 Map.empty = (a, av)"
    by (cases "parse_loop m line False (CHR 0x00) 0 Map.empty") auto
  have b: "0 \<le> a \<and> (a = 0 \<or> a \<le> m - 1) \<and> dom av = {0 ..< nat a}"
    using parse_loop_bounds [OF pl] by simp
  have "argc = a" "argv = av(nat a \<mapsto> None)"
    using assms(2) pl by (auto simp add: shell_parse_line_def)
  with b assms(1) show ?thesis by auto
qed

lemma parse_line_no_slots: "m \<le> 0 \<Longrightarrow> shell_parse_line line m = (0, [0 \<mapsto> None])"
  by (simp add: shell_parse_line_def parse_loop.simps)



lemma parse_quoted_inside:
  assumes "plain_word v" "plain_chars w" "q = DQ \<or> q = SQ" "q \<notin> set s" "BSL \<notin> set s" "2 \<le> m"
  shows "argv_list (shell_parse_line (v @ [q] @ s @ [q] @ w) m) = [PTR (v @ s @ w), NULLP]"
proof -
  have pv: "plain_chars v" using assms(1) by (simp add: plain_word_def)
  have dv: "dropWhile is_blank (v @ q # s @ q # w) = v @ q # s @ q # w"
    and hv: "hd (v @ q # s @ q # w) \<noteq> CHR ''#''" and vn: "v \<noteq> []"
    using assms(1) by (cases v; simp add: plain_word_def plain_chars_def)+
  have "scan_token [] False (CHR 0x00) (v @ q # s @ q # w)
      = scan_token v False (CHR 0x00) (q # s @ q # w)"
    using scan_token_plain [OF pv, of "[]"] by simp
  also have "\<dots> = scan_token v True q (s @ q # w)"
    using assms(3) by auto
  also have "\<dots> = scan_token (v @ s) True q (q # w)"
    using scan_token_quoted [OF assms(4,5)] by simp
  also have "\<dots> = scan_token (v @ s) False q (w @ [])"
    using assms(3) by auto
  also have "\<dots> = (v @ s @ w, [], False, q)"
    using scan_token_plain [OF assms(2), of "v @ s" q "[]"] by simp
  finally have sc: "scan_token [] False (CHR 0x00) (v @ q # s @ q # w) = (v @ s @ w, [], False, q)" .
  have "parse_loop m (v @ q # s @ q # w) False (CHR 0x00) 0 Map.empty
      = (1, [0 \<mapsto> Some (v @ s @ w)])"
    using assms(6) hv vn
    by (subst parse_loop.simps) (simp add: dv sc parse_loop.simps [of _ "[]"])
  then show ?thesis by (simp add: shell_parse_line_def argv_list_def)
qed

text \<open>
  Claim C7. The splitter honours quoting and escaping. The two sample lines split as
  stated. In general: a line in which every character is escaped is one token, the
  characters themselves, outside quotes and inside; a quoted text without the quote
  character and without backslash is one token, the text without its quotes, blanks
  included, also in the middle of a word; and a blank between two plain words ends the
  first token.
\<close>

theorem split_quoting_escaping:
  "argv_list (shell_parse_line (''a '' @ [DQ] @ ''b c'' @ [DQ] @ '' d'') SHELL_MAX_ARGS)
     = [PTR ''a'', PTR ''b c'', PTR ''d'', NULLP]
   \<and> argv_list (shell_parse_line (''a'' @ [BSL] @ '' b'') SHELL_MAX_ARGS) = [PTR ''a b'', NULLP]
   \<and> (\<forall>s m. s \<noteq> [] \<and> 2 \<le> m \<longrightarrow>
         argv_list (shell_parse_line (escape_all s) m) = [PTR s, NULLP])
   \<and> (\<forall>q s m. (q = DQ \<or> q = SQ) \<and> 2 \<le> m \<longrightarrow>
         argv_list (shell_parse_line ([q] @ escape_all s @ [q]) m) = [PTR s, NULLP])
   \<and> (\<forall>q s m. (q = DQ \<or> q = SQ) \<and> q \<notin> set s \<and> BSL \<notin> set s \<and> 2 \<le> m \<longrightarrow>
         argv_list (shell_parse_line ([q] @ s @ [q]) m) = [PTR s, NULLP])
   \<and> (\<forall>v w q s m. plain_word v \<and> plain_chars w \<and> (q = DQ \<or> q = SQ) \<and> q \<notin> set s \<and>
           BSL \<notin> set s \<and> 2 \<le> m \<longrightarrow>
         argv_list (shell_parse_line (v @ [q] @ s @ [q] @ w) m) = [PTR (v @ s @ w), NULLP])
   \<and> (\<forall>v w b m. plain_word v \<and> plain_word w \<and> is_blank b \<and> 3 \<le> m \<longrightarrow>
         argv_list (shell_parse_line (v @ [b] @ w) m) = [PTR v, PTR w, NULLP])"
  using parse_example_quotes parse_example_escape parse_escaped parse_quoted_escaped
    parse_quoted parse_quoted_inside parse_two_words
  by (simp add: SHELL_MAX_ARGS_def)

theorem split_quoting_escaping_witness:
  "argv_list (shell_parse_line (escape_all ''a b'') 2) = [PTR ''a b'', NULLP]
   \<and> argv_list (shell_parse_line ([SQ] @ escape_all ''it's'' @ [SQ]) 2) = [PTR ''it's'', NULLP]
   \<and> argv_list (shell_parse_line ([DQ] @ ''it's  # here'' @ [DQ]) 2) = [PTR ''it's  # here'', NULLP]
   \<and> argv_list (shell_parse_line (''ab'' @ [SQ] @ ''c d'' @ [SQ] @ ''e'') 2)
       = [PTR (''ab'' @ ''c d'' @ ''e''), NULLP]
   \<and> argv_list (shell_parse_line (''ls'' @ [TAB] @ ''-l'') 3) = [PTR ''ls'', PTR ''-l'', NULLP]"
proof -
  note t = split_quoting_escaping [THEN conjunct2, THEN conjunct2]
  note t3 = t [THEN conjunct1, rule_format]
  note t4 = t [THEN conjunct2, THEN conjunct1, rule_format]
  note t5 = t [THEN conjunct2, THEN conjunct2, THEN conjunct1, rule_format]
  note t6 = t [THEN conjunct2, THEN conjunct2, THEN conjunct2, THEN conjunct1, rule_format]
  note t7 = t [THEN conjunct2, THEN conjunct2, THEN conjunct2, THEN conjunct2, rule_format]
  have a: "argv_list (shell_parse_line (escape_all ''a b'') 2) = [PTR ''a b'', NULLP]"
    by (rule t3) simp
  have b: "argv_list (shell_parse_line ([SQ] @ escape_all ''it's'' @ [SQ]) 2) = [PTR ''it's'', NULLP]"
    by (rule t4) simp
  have c: "argv_list (shell_parse_line ([DQ] @ ''it's  # here'' @ [DQ]) 2)
      = [PTR ''it's  # here'', NULLP]"
    by (rule t5) simp
  have d: "argv_list (shell_parse_line (''ab'' @ [SQ] @ ''c d'' @ [SQ] @ ''e'') 2)
      = [PTR (''ab'' @ ''c d'' @ ''e''), NULLP]"
    by (rule t6) (simp add: plain_word_def plain_chars_def is_blank_def)
  have e: "argv_list (shell_parse_line (''ls'' @ [TAB] @ ''-l'') 3) = [PTR ''ls'', PTR ''-l'', NULLP]"
    by (rule t7) (simp add: plain_word_def plain_chars_def is_blank_def)
  from a b c d e show ?thesis by blast
qed

text \<open>
  Claim C6. The splitter writes the slots \<open>0 .. argc\<close> and nothing else, the last of
  them \<^verbatim>\<open>NULL\<close>. With at least one slot (\<open>1 \<le> max_args\<close>) they lie within the array
  (lemma \<open>parse_line_safe\<close>). With \<open>max_args = 0\<close> the loop is not entered and the final
  \<^verbatim>\<open>argv[argc] = NULL\<close> still writes slot 0 of an array that has no slot.
\<close>

theorem parse_line_writes_without_slots:
  "fst (shell_parse_line ''ls'' 0) = 0 \<and> snd (shell_parse_line ''ls'' 0) 0 = NULLP"
  by (simp add: shell_parse_line_def parse_loop.simps)

subsection \<open>History ring buffer\<close>

lemma smod50: "0 \<le> a \<Longrightarrow> a smod (50::int) = a mod 50"
  by (simp add: smod_mod_positive)

lemma history_get_view:
  "0 \<le> i \<Longrightarrow> i < history_count s \<Longrightarrow>
   shell_history_get s i = Some (history_view s ! nat i)"
  by (simp add: shell_history_get_def history_view_def)

lemma history_get_outside:
  "i < 0 \<or> history_count s \<le> i \<Longrightarrow> shell_history_get s i = None"
  by (auto simp: shell_history_get_def)

lemma length_history_view: "length (history_view s) = nat (history_count s)"
  by (simp add: history_view_def)

lemma history_add_ok: "history_ok s \<Longrightarrow> history_ok (shell_history_add s cmd)"
  by (cases cmd) (auto simp: history_ok_def shell_history_add_def SHELL_HISTORY_SIZE_def smod50)

lemma history_last_slot:
  assumes "history_ok s" "0 < history_count s"
  shows "command (history s ! nat ((history_index s - 1 + SHELL_HISTORY_SIZE) smod SHELL_HISTORY_SIZE))
         = last (history_view s)"
proof -
  have n: "history_view s \<noteq> []" using assms(2) by (simp add: history_view_def)
  have "last (history_view s) = history_view s ! (nat (history_count s) - 1)"
    using n by (simp add: last_conv_nth length_history_view)
  also have "\<dots> = command (history s ! nat ((history_index s - history_count s
        + int (nat (history_count s) - 1) + SHELL_HISTORY_SIZE) smod SHELL_HISTORY_SIZE))"
    using assms(2) by (simp add: history_view_def)
  also have "history_index s - history_count s + int (nat (history_count s) - 1) + SHELL_HISTORY_SIZE
      = history_index s - 1 + SHELL_HISTORY_SIZE"
    using assms(2) by simp
  finally show ?thesis by simp
qed

lemma history_view_nth:
  assumes "int i < history_count s"
  shows "history_view s ! i = command (history s ! slot_of s (int i))"
proof -
  have "i < nat (history_count s)" using assms by linarith
  then show ?thesis by (simp add: history_view_def slot_of_def)
qed

lemma ring_index:
  fixes x n i :: int
  assumes "0 \<le> x" "x < 50" "0 \<le> i" "i < n" "n \<le> 50"
  shows "(x - n + i + 50) smod 50 = (if n - i \<le> x then x - n + i else x - n + i + 50)"
proof -
  have nn: "0 \<le> x - n + i + 50" using assms by linarith
  have s: "(x - n + i + 50) smod 50 = (x - n + i + 50) mod 50" by (rule smod50 [OF nn])
  show ?thesis
  proof (cases "n - i \<le> x")
    case True
    have "(x - n + i + 50) mod 50 = (x - n + i + 50 - 50) mod 50"
      by (simp only: minus_mod_self2)
    also have "\<dots> = x - n + i + 50 - 50"
      by (rule mod_pos_pos_trivial) (use True assms in linarith)+
    finally have "(x - n + i + 50) mod 50 = x - n + i" by simp
    with s True show ?thesis by (simp only: if_True)
  next
    case False
    have "(x - n + i + 50) mod 50 = x - n + i + 50"
      by (rule mod_pos_pos_trivial) (use False assms in linarith)+
    with s False show ?thesis by (simp only: if_False)
  qed
qed

lemma slot_of_val:
  assumes "history_ok s" "0 \<le> i" "i < history_count s"
  shows "slot_of s i =
    nat (if history_count s - i \<le> history_index s
         then history_index s - history_count s + i
         else history_index s - history_count s + i + 50)"
proof -
  have r: "0 \<le> history_index s" "history_index s < 50" "history_count s \<le> 50"
    using assms(1) by (auto simp: history_ok_def SHELL_HISTORY_SIZE_def)
  show ?thesis
    unfolding slot_of_def SHELL_HISTORY_SIZE_def
    by (simp only: ring_index [OF r(1,2) assms(2,3) r(3)])
qed

lemma ring_next:
  fixes x :: int
  assumes "0 \<le> x" "x < 50"
  shows "(x + 1) mod 50 = (if x = 49 then 0 else x + 1)"
  using assms by simp

lemma history_add_fresh:
  assumes ok: "history_ok s" and c: "c \<noteq> []"
    and new: "history_view s = [] \<or> last (history_view s) \<noteq> c"
  shows "shell_history_add s (Some c) =
      s\<lparr> history := (history s)[nat (history_index s) :=
             (history s ! nat (history_index s))
               \<lparr>command := take (SHELL_MAX_LINE - 1) c, number := history_count s\<rparr>],
         history_index := (if history_index s = 49 then 0 else history_index s + 1),
         history_count := (if history_count s < 50 then history_count s + 1 else history_count s) \<rparr>"
proof -
  have nodup: "\<not> (history_count s > 0 \<and> command (history s !
      nat ((history_index s - 1 + 50) smod 50)) = c)"
    using new history_last_slot [OF ok] by (auto simp: history_view_def SHELL_HISTORY_SIZE_def)
  have r: "0 \<le> history_index s" "history_index s < 50"
    using ok by (auto simp: history_ok_def SHELL_HISTORY_SIZE_def)
  have "0 \<le> history_index s + 1" using r by simp
  then have "(history_index s + 1) smod 50 = (history_index s + 1) mod 50"
    by (rule smod50)
  then have m: "(history_index s + 1) smod 50 = (if history_index s = 49 then 0 else history_index s + 1)"
    by (simp only: ring_next [OF r])
  show ?thesis
    by (simp only: shell_history_add_def option.case if_not_P [OF nodup] c if_False
        SHELL_HISTORY_SIZE_def m)
qed

lemma history_add_view:
  assumes ok: "history_ok s" and c: "c \<noteq> []" "length c < SHELL_MAX_LINE"
    and new: "history_view s = [] \<or> last (history_view s) \<noteq> c"
  shows "history_view (shell_history_add s (Some c)) =
           (if history_count s < SHELL_HISTORY_SIZE then history_view s @ [c]
            else tl (history_view s) @ [c])"
proof -
  let ?n = "history_count s" and ?x = "history_index s" and ?h = "history s"
  let ?s' = "shell_history_add s (Some c)"
  have r: "0 \<le> ?x" "?x < 50" "0 \<le> ?n" "?n \<le> 50" "length ?h = 50"
    using ok by (auto simp: history_ok_def SHELL_HISTORY_SIZE_def)
  have tk: "take (SHELL_MAX_LINE - 1) c = c" "take (SHELL_MAX_LINE - Suc 0) c = c"
    using c(2) by simp_all
  note s' = history_add_fresh [OF ok c(1) new]
  have ok': "history_ok ?s'" by (rule history_add_ok [OF ok])
  have x': "history_index ?s' = (if ?x = 49 then 0 else ?x + 1)"
    and n': "history_count ?s' = (if ?n < 50 then ?n + 1 else ?n)"
    and h': "history ?s' = ?h[nat ?x := (?h ! nat ?x)\<lparr>command := c, number := ?n\<rparr>]"
    by (simp_all add: s' tk)
  have len: "length (history_view ?s') = nat (if ?n < 50 then ?n + 1 else ?n)"
    by (simp only: length_history_view n')
  have new_slot: "command (history ?s' ! nat ?x) = c"
    using r by (simp add: h')
  have old_slot: "command (history ?s' ! k) = command (?h ! k)" if "k \<noteq> nat ?x" for k
    using that by (simp add: h')
  show ?thesis
  proof (cases "?n < 50")
    case True
    have "history_view ?s' = history_view s @ [c]"
    proof (rule nth_equalityI)
      show "length (history_view ?s') = length (history_view s @ [c])"
        using True r by (simp add: length_history_view n')
    next
      fix i assume "i < length (history_view ?s')"
      then have i: "int i \<le> ?n" using True r by (simp add: length_history_view n')
      then have i': "int i < history_count ?s'" using True by (simp add: n')
      have sl': "slot_of ?s' (int i) =
          nat (if ?n + 1 - int i \<le> (if ?x = 49 then 0 else ?x + 1)
               then (if ?x = 49 then 0 else ?x + 1) - (?n + 1) + int i
               else (if ?x = 49 then 0 else ?x + 1) - (?n + 1) + int i + 50)"
        using slot_of_val [OF ok' _ i'] True by (simp add: x' n')
      show "history_view ?s' ! i = (history_view s @ [c]) ! i"
      proof (cases "int i = ?n")
        case True
        have "slot_of ?s' (int i) = nat ?x"
          unfolding sl' using True r by (simp split: if_splits; linarith)
        then have "history_view ?s' ! i = c"
          using new_slot by (simp add: history_view_nth [OF i'])
        moreover have "i = length (history_view s)"
          using True by (simp add: length_history_view)
        then have "(history_view s @ [c]) ! i = c" by simp
        ultimately show ?thesis by simp
      next
        case False
        then have lt: "int i < ?n" using i by simp
        have sl: "slot_of s (int i) =
            nat (if ?n - int i \<le> ?x then ?x - ?n + int i else ?x - ?n + int i + 50)"
          using slot_of_val [OF ok _ lt] by simp
        have same: "slot_of ?s' (int i) = slot_of s (int i)"
          unfolding sl sl' using lt r \<open>?n < 50\<close> by (simp split: if_splits; linarith)
        have other: "slot_of s (int i) \<noteq> nat ?x"
          unfolding sl using lt r \<open>?n < 50\<close> by (simp split: if_splits; linarith)
        have "history_view ?s' ! i = command (?h ! slot_of s (int i))"
          using old_slot [OF other] by (simp add: history_view_nth [OF i'] same)
        also have "\<dots> = history_view s ! i" by (simp add: history_view_nth [OF lt])
        also have "\<dots> = (history_view s @ [c]) ! i"
        proof -
          have "i < length (history_view s)" using lt by (simp add: length_history_view)
          then show ?thesis by (simp add: nth_append)
        qed
        finally show ?thesis .
      qed
    qed
    with True show ?thesis by (simp add: SHELL_HISTORY_SIZE_def)
  next
    case False
    then have n50: "?n = 50" using r by simp
    have "history_view ?s' = tl (history_view s) @ [c]"
    proof (rule nth_equalityI)
      show "length (history_view ?s') = length (tl (history_view s) @ [c])"
        using n50 by (simp add: length_history_view n')
    next
      fix i assume "i < length (history_view ?s')"
      then have i: "i < 50" using n50 by (simp add: length_history_view n')
      then have i': "int i < history_count ?s'" using n50 by (simp add: n')
      have sl': "slot_of ?s' (int i) =
          nat (if 50 - int i \<le> (if ?x = 49 then 0 else ?x + 1)
               then (if ?x = 49 then 0 else ?x + 1) - 50 + int i
               else (if ?x = 49 then 0 else ?x + 1) - 50 + int i + 50)"
        using slot_of_val [OF ok' _ i'] n50 by (simp add: x' n')
      show "history_view ?s' ! i = (tl (history_view s) @ [c]) ! i"
      proof (cases "i = 49")
        case True
        have "slot_of ?s' (int i) = nat ?x"
          unfolding sl' using True r by (simp split: if_splits; linarith)
        then have "history_view ?s' ! i = c"
          using new_slot by (simp add: history_view_nth [OF i'])
        moreover have "i = length (tl (history_view s))"
          using True n50 by (simp add: length_history_view)
        then have "(tl (history_view s) @ [c]) ! i = c" by (simp add: nth_append)
        ultimately show ?thesis by simp
      next
        case False
        then have lt: "int (Suc i) < ?n" using i n50 by simp
        have sl: "slot_of s (int (Suc i)) =
            nat (if ?n - int (Suc i) \<le> ?x then ?x - ?n + int (Suc i)
                 else ?x - ?n + int (Suc i) + 50)"
          using slot_of_val [OF ok _ lt] by simp
        have same: "slot_of ?s' (int i) = slot_of s (int (Suc i))"
          unfolding sl sl' using lt r n50 by (simp split: if_splits; linarith)
        have other: "slot_of s (int (Suc i)) \<noteq> nat ?x"
          unfolding sl using lt r n50 by (simp split: if_splits; linarith)
        have "history_view ?s' ! i = command (?h ! slot_of s (int (Suc i)))"
          using old_slot [OF other] by (simp add: history_view_nth [OF i'] same)
        also have "\<dots> = history_view s ! Suc i" by (simp only: history_view_nth [OF lt])
        also have "\<dots> = (tl (history_view s) @ [c]) ! i"
        proof -
          have "i < length (tl (history_view s))"
            using False i n50 by (simp add: length_history_view)
          then show ?thesis by (simp add: nth_append nth_tl)
        qed
        finally show ?thesis .
      qed
    qed
    with False show ?thesis by (simp add: SHELL_HISTORY_SIZE_def)
  qed
qed

lemma distinct_adj_if_distinct: "distinct xs \<Longrightarrow> distinct_adj xs"
proof (induction xs)
  case Nil
  show ?case by simp
next
  case (Cons x xs)
  then show ?case by (cases xs) (auto simp: distinct_adj_Cons)
qed

lemma history_view_short: "history_ok s \<Longrightarrow> length (history_view s) \<le> 50"
  by (auto simp: length_history_view history_ok_def SHELL_HISTORY_SIZE_def)

lemma history_add_all_view:
  assumes "history_ok s" "\<forall>c\<in>set cs. c \<noteq> [] \<and> length c < SHELL_MAX_LINE"
    and "distinct_adj cs" "history_view s = [] \<or> cs = [] \<or> last (history_view s) \<noteq> hd cs"
  shows "history_ok (history_add_all s cs) \<and>
         history_view (history_add_all s cs) =
           drop (length (history_view s @ cs) - 50) (history_view s @ cs)"
  using assms
proof (induction cs arbitrary: s)
  case Nil
  then show ?case using history_view_short [of s] by simp
next
  case (Cons c cs)
  let ?s1 = "shell_history_add s (Some c)"
  let ?v = "history_view s"
  have c: "c \<noteq> []" "length c < SHELL_MAX_LINE" using Cons.prems(2) by simp_all
  have new: "?v = [] \<or> last ?v \<noteq> c" using Cons.prems(4) by simp
  have ok1: "history_ok ?s1" by (rule history_add_ok [OF Cons.prems(1)])
  have v1: "history_view ?s1 =
      (if history_count s < SHELL_HISTORY_SIZE then ?v @ [c] else tl ?v @ [c])"
    by (rule history_add_view [OF Cons.prems(1) c new])
  have l1: "last (history_view ?s1) = c" "history_view ?s1 \<noteq> []" by (simp_all add: v1)
  have adj: "cs = [] \<or> c \<noteq> hd cs" "distinct_adj cs"
    using Cons.prems(3) by (auto simp: distinct_adj_Cons)
  have ih: "history_ok (history_add_all ?s1 cs) \<and>
      history_view (history_add_all ?s1 cs) =
        drop (length (history_view ?s1 @ cs) - 50) (history_view ?s1 @ cs)"
    using Cons.IH [OF ok1 _ adj(2)] Cons.prems(2) adj(1) l1 by simp
  have "drop (length (history_view ?s1 @ cs) - 50) (history_view ?s1 @ cs)
      = drop (length (?v @ c # cs) - 50) (?v @ c # cs)"
  proof (cases "history_count s < SHELL_HISTORY_SIZE")
    case True
    then show ?thesis by (simp add: v1)
  next
    case False
    then have "history_count s = 50"
      using Cons.prems(1) by (simp add: history_ok_def SHELL_HISTORY_SIZE_def)
    then have len: "length ?v = 50" by (simp add: length_history_view)
    then obtain a w where vw: "?v = a # w" by (cases ?v) auto
    then have "length w = 49" using len by simp
    then show ?thesis using False by (simp add: v1 vw)
  qed
  with ih show ?case by simp
qed

lemma history_add_all_cleared:
  assumes "int (length (history s)) = SHELL_HISTORY_SIZE" "distinct cmds"
    and "\<forall>c\<in>set cmds. c \<noteq> [] \<and> length c < SHELL_MAX_LINE"
    and "int (length cmds) = SHELL_HISTORY_SIZE + int k"
  shows "history_count (history_add_all (shell_history_clear s) cmds) = SHELL_HISTORY_SIZE"
    and "0 \<le> i \<Longrightarrow> i < SHELL_HISTORY_SIZE \<Longrightarrow>
         shell_history_get (history_add_all (shell_history_clear s) cmds) i
           = Some (cmds ! (k + nat i))"
proof -
  let ?s0 = "shell_history_clear s" and ?t = "history_add_all (shell_history_clear s) cmds"
  have ok0: "history_ok ?s0"
    using assms(1) by (simp add: history_ok_def shell_history_clear_def SHELL_HISTORY_SIZE_def)
  have v0: "history_view ?s0 = []" by (simp add: history_view_def shell_history_clear_def)
  have len: "length cmds = 50 + k" using assms(4) by (simp add: SHELL_HISTORY_SIZE_def)
  have "history_ok ?t \<and> history_view ?t = drop (length (history_view ?s0 @ cmds) - 50)
      (history_view ?s0 @ cmds)"
    by (rule history_add_all_view [OF ok0 assms(3) distinct_adj_if_distinct [OF assms(2)]])
      (simp add: v0)
  then have v: "history_view ?t = drop k cmds" and ok: "history_ok ?t"
    by (simp_all add: v0 len)
  have "length (history_view ?t) = 50" by (simp add: v len)
  then show n: "history_count ?t = SHELL_HISTORY_SIZE"
    using ok by (simp add: length_history_view SHELL_HISTORY_SIZE_def history_ok_def)
  assume i: "0 \<le> i" "i < SHELL_HISTORY_SIZE"
  then have "shell_history_get ?t i = Some (history_view ?t ! nat i)"
    by (intro history_get_view) (simp_all add: n)
  also have "history_view ?t ! nat i = cmds ! (k + nat i)"
    using i by (simp add: v len SHELL_HISTORY_SIZE_def)
  finally show "shell_history_get ?t i = Some (cmds ! (k + nat i))" .
qed

lemma history_add_twice:
  assumes ok: "history_ok t" and c: "length c < SHELL_MAX_LINE"
  shows "shell_history_add (shell_history_add t (Some c)) (Some c) = shell_history_add t (Some c)"
proof (cases "c = []")
  case True
  then show ?thesis by (simp add: shell_history_add_def)
next
  case False
  let ?dup = "history_count t > 0 \<and> command (history t !
      nat ((history_index t - 1 + SHELL_HISTORY_SIZE) smod SHELL_HISTORY_SIZE)) = c"
  show ?thesis
  proof (cases ?dup)
    case True
    then have "shell_history_add t (Some c) = t" using False by (simp add: shell_history_add_def)
    then show ?thesis by simp
  next
    case nd: False
    let ?s1 = "shell_history_add t (Some c)"
    have new: "history_view t = [] \<or> last (history_view t) \<noteq> c"
    proof (cases "history_count t > 0")
      case True
      then show ?thesis using nd history_last_slot [OF ok True] by simp
    next
      case False
      then show ?thesis by (simp add: history_view_def)
    qed
    have ok1: "history_ok ?s1" by (rule history_add_ok [OF ok])
    have v1: "history_view ?s1 =
        (if history_count t < SHELL_HISTORY_SIZE then history_view t @ [c]
         else tl (history_view t) @ [c])"
      by (rule history_add_view [OF ok False c new])
    then have "history_view ?s1 \<noteq> []" "last (history_view ?s1) = c" by simp_all
    then have pos: "history_count ?s1 > 0" and "last (history_view ?s1) = c"
      using length_history_view [of ?s1] by (cases "history_count ?s1 > 0"; simp)+
    then have "command (history ?s1 !
        nat ((history_index ?s1 - 1 + SHELL_HISTORY_SIZE) smod SHELL_HISTORY_SIZE)) = c"
      using history_last_slot [OF ok1 pos] by simp
    with pos show ?thesis
      using False by (subst shell_history_add_def) simp
  qed
qed

text \<open>
  Claim C2, as stated, fails for a command of 256 characters: the entry keeps 255 of
  them, so the entry differs from the command and adding the command again adds a second
  entry.
\<close>

theorem history_long_command_counterexample:
  "history_count (shell_history_add
       (shell_history_add initial_shell_state (Some (replicate 256 (CHR ''a''))))
       (Some (replicate 256 (CHR ''a'')))) = 2
   \<and> shell_history_get
       (shell_history_add initial_shell_state (Some (replicate 256 (CHR ''a'')))) 0
     = Some (replicate 255 (CHR ''a''))"
  by (simp add: initial_shell_state_def shell_history_add_def shell_history_get_def
      SHELL_HISTORY_SIZE_def SHELL_MAX_LINE_def smod_mod_positive)

text \<open>
  Claim C2, amended. Commands are non-empty and shorter than \<^verbatim>\<open>SHELL_MAX_LINE\<close>. After
  \<open>capacity + k\<close> distinct commands were added to a cleared history over 50 slots,
  \<open>get 0\<close> is the \<open>(k+1)\<close>-th command added, the count is 50 and \<open>get i\<close> is the
  \<open>(k+i+1)\<close>-th; \<open>get\<close> outside \<open>[0, count)\<close> is \<^verbatim>\<open>NULL\<close>; and adding a command a second
  time in a row changes nothing.
\<close>

theorem history_ring_buffer:
  "(int (length (history s)) = SHELL_HISTORY_SIZE \<and> distinct cmds \<and>
      (\<forall>c\<in>set cmds. c \<noteq> [] \<and> length c < SHELL_MAX_LINE) \<and>
      int (length cmds) = SHELL_HISTORY_SIZE + int k \<longrightarrow>
      shell_history_get (history_add_all (shell_history_clear s) cmds) 0 = Some (cmds ! k) \<and>
      history_count (history_add_all (shell_history_clear s) cmds) = SHELL_HISTORY_SIZE \<and>
      (\<forall>i. 0 \<le> i \<and> i < SHELL_HISTORY_SIZE \<longrightarrow>
         shell_history_get (history_add_all (shell_history_clear s) cmds) i
           = Some (cmds ! (k + nat i))))
   \<and> (i < 0 \<or> history_count t \<le> i \<longrightarrow> shell_history_get t i = None)
   \<and> (history_ok t \<and> length c < SHELL_MAX_LINE \<longrightarrow>
        shell_history_add (shell_history_add t (Some c)) (Some c) = shell_history_add t (Some c))"
proof (intro conjI impI allI)
  assume a: "int (length (history s)) = SHELL_HISTORY_SIZE \<and> distinct cmds \<and>
      (\<forall>c\<in>set cmds. c \<noteq> [] \<and> length c < SHELL_MAX_LINE) \<and>
      int (length cmds) = SHELL_HISTORY_SIZE + int k"
  then have h: "int (length (history s)) = SHELL_HISTORY_SIZE" "distinct cmds"
    "\<forall>c\<in>set cmds. c \<noteq> [] \<and> length c < SHELL_MAX_LINE"
    "int (length cmds) = SHELL_HISTORY_SIZE + int k" by blast+
  show "shell_history_get (history_add_all (shell_history_clear s) cmds) 0 = Some (cmds ! k)"
    using history_add_all_cleared(2) [OF h, of 0] by (simp add: SHELL_HISTORY_SIZE_def)
  show "history_count (history_add_all (shell_history_clear s) cmds) = SHELL_HISTORY_SIZE"
    by (rule history_add_all_cleared(1) [OF h])
  fix j assume "0 \<le> j \<and> j < SHELL_HISTORY_SIZE"
  then show "shell_history_get (history_add_all (shell_history_clear s) cmds) j
      = Some (cmds ! (k + nat j))"
    using history_add_all_cleared(2) [OF h, of j] by simp
next
  assume "i < 0 \<or> history_count t \<le> i"
  then show "shell_history_get t i = None" by (rule history_get_outside)
next
  assume "history_ok t \<and> length c < SHELL_MAX_LINE"
  then show "shell_history_add (shell_history_add t (Some c)) (Some c)
      = shell_history_add t (Some c)"
    using history_add_twice by blast
qed

theorem history_ring_buffer_witness:
  "shell_history_get (history_add_all (shell_history_clear initial_shell_state) sample_commands) 0
     = Some ''xxx''
   \<and> shell_history_get initial_shell_state 0 = None
   \<and> shell_history_add (shell_history_add initial_shell_state (Some ''ls'')) (Some ''ls'')
     = shell_history_add initial_shell_state (Some ''ls'')"
proof -
  note t = history_ring_buffer [of initial_shell_state sample_commands 2 0 initial_shell_state "''ls''"]
  have d: "distinct sample_commands"
    by (simp add: sample_commands_def distinct_map inj_on_def)
  have e: "\<forall>c\<in>set sample_commands. c \<noteq> [] \<and> length c < SHELL_MAX_LINE"
    by (auto simp: sample_commands_def SHELL_MAX_LINE_def)
  have l: "int (length sample_commands) = SHELL_HISTORY_SIZE + int 2"
    by (simp add: sample_commands_def SHELL_HISTORY_SIZE_def)
  have h: "int (length (history initial_shell_state)) = SHELL_HISTORY_SIZE"
    by (simp add: initial_shell_state_def SHELL_HISTORY_SIZE_def)
  have n: "sample_commands ! 2 = ''xxx''"
    by (simp add: sample_commands_def numeral_3_eq_3)
  have ok: "history_ok initial_shell_state"
    by (simp add: history_ok_def initial_shell_state_def SHELL_HISTORY_SIZE_def)
  have z: "history_count initial_shell_state \<le> 0" by (simp add: initial_shell_state_def)
  have s: "length ''ls'' < SHELL_MAX_LINE" by (simp add: SHELL_MAX_LINE_def)
  from t d e l h n ok z s show ?thesis by simp
qed

subsection \<open>Table lookup\<close>

lemma first_slot_None_iff: "first_slot P xs = None \<longleftrightarrow> (\<forall>x\<in>set xs. \<not> P x)"
  by (induction xs) auto

lemma first_slot_SomeD:
  "first_slot P xs = Some i \<Longrightarrow> i < length xs \<and> P (xs ! i) \<and> (\<forall>j<i. \<not> P (xs ! j))"
proof (induction xs arbitrary: i)
  case Nil
  then show ?case by simp
next
  case (Cons x xs)
  show ?case
  proof (cases "P x")
    case True
    with Cons.prems show ?thesis by simp
  next
    case False
    with Cons.prems obtain k where k: "first_slot P xs = Some k" "i = Suc k" by auto
    from Cons.IH [OF k(1)] False k(2) show ?thesis by (auto simp: less_Suc_eq_0_disj)
  qed
qed

lemma first_slot_replicate:
  "first_slot P (replicate n x) = (if n = 0 \<or> \<not> P x then None else Some 0)"
  by (cases n) (auto simp: first_slot_None_iff)

lemma first_slot_update_same:
  "P y = P (xs ! i) \<Longrightarrow> first_slot P (xs[i := y]) = first_slot P xs"
proof (induction xs arbitrary: i)
  case Nil
  then show ?case by simp
next
  case (Cons x xs)
  then show ?case by (cases i) auto
qed

lemma first_slot_update_new:
  "first_slot P xs = None \<Longrightarrow> i < length xs \<Longrightarrow> P y \<Longrightarrow> first_slot P (xs[i := y]) = Some i"
proof (induction xs arbitrary: i)
  case Nil
  then show ?case by simp
next
  case (Cons x xs)
  then show ?case by (cases i) (auto split: if_splits)
qed

subsection \<open>Job control\<close>

lemma shell_bg_keeps_terminal:
  assumes "job_state (jobs ! k) = JOB_DONE \<or> job_state (jobs ! k) = JOB_KILLED"
  shows "snd (shell_bg jobs p) ! k = jobs ! k"
proof (cases "shell_job_find_by_pid jobs p")
  case None
  then show ?thesis by (simp add: shell_bg_def)
next
  case (Some i)
  show ?thesis
  proof (cases "i = k")
    case True
    with Some assms show ?thesis by (auto simp: shell_bg_def)
  next
    case False
    with Some show ?thesis by (simp add: shell_bg_def)
  qed
qed

lemma wait_loop_idle:
  "job_state (jobs ! i) = JOB_RUNNING \<Longrightarrow> wait_loop (replicate n id) i jobs = None"
  by (induction n) simp_all

text \<open>
  Claim C1. \<^verbatim>\<open>shell_bg\<close> leaves a job that is Done or Killed as it is (lemma
  \<open>shell_bg_keeps_terminal\<close>). \<^verbatim>\<open>shell_fg\<close> does not: on the finished job with
  pid 7 its assignment makes the state Running, and with a \<^verbatim>\<open>yield\<close> that changes
  nothing the wait that follows never ends, however often it polls.
\<close>

theorem shell_fg_revives_finished_job:
  "shell_job_find_by_pid finished_jobs 7 = Some 0
   \<and> job_state (finished_jobs ! 0) = JOB_DONE
   \<and> job_state (fg_mark finished_jobs 0 ! 0) = JOB_RUNNING
   \<and> shell_fg (replicate n id) finished_jobs 7 = None"
proof -
  have r: "job_state (fg_mark finished_jobs 0 ! 0) = JOB_RUNNING"
    by (simp add: fg_mark_def finished_jobs_def)
  have f: "shell_job_find (fg_mark finished_jobs 0) (job_id (fg_mark finished_jobs 0 ! 0)) = Some 0"
    by (simp add: shell_job_find_def fg_mark_def finished_jobs_def)
  have p: "shell_job_find_by_pid finished_jobs 7 = Some 0"
    by (simp add: shell_job_find_by_pid_def finished_jobs_def)
  have "shell_fg (replicate n id) finished_jobs 7 = None"
    by (simp add: shell_fg_def p shell_wait_job_def f wait_loop_idle [OF r])
  with r p show ?thesis by (simp add: finished_jobs_def)
qed

subsection \<open>Dispatch\<close>

lemma shell_execute_dispatches:
  assumes "dropWhile is_blank line \<noteq> []" "hd (dropWhile is_blank line) \<noteq> CHR ''#''"
  shows "\<exists>g1 argc argv. shell_execute call g line = shell_dispatch call g1 argc argv
           \<and> argc = int (length argv)
           \<and> g1 = (if interactive (shell_state g)
                   then g\<lparr>shell_state := shell_history_add (shell_state g) (Some line)\<rparr> else g)"
proof -
  let ?g1 = "if interactive (shell_state g)
             then g\<lparr>shell_state := shell_history_add (shell_state g) (Some line)\<rparr> else g"
  let ?parsed = "shell_parse_line (shell_expand ?g1 (take (SHELL_MAX_LINE - 1) line)
                    (int SHELL_MAX_LINE)) SHELL_MAX_ARGS"
  obtain argc argv where pa: "?parsed = (argc, argv)" by (cases ?parsed) auto
  have "0 \<le> argc" using parse_line_safe [OF _ pa] by (simp add: SHELL_MAX_ARGS_def)
  then have l: "argc = int (length (argv_strings (argc, argv)))"
    by (simp add: argv_strings_def)
  have e: "shell_execute call g line
      = shell_dispatch call ?g1 (fst ?parsed) (argv_strings ?parsed)"
    using assms by (auto simp add: shell_execute_def Let_def)
  have "shell_execute call g line = shell_dispatch call ?g1 argc (argv_strings (argc, argv))"
    using e unfolding pa by (simp only: fst_conv)
  with l show ?thesis by blast
qed

text \<open>
  Claim C4. For an argument vector \<open>argv\<close> of \<open>argc \<ge> 1\<close> strings: when \<^verbatim>\<open>argv[0]\<close> is
  the name of a registered command, the dispatcher calls its handler with
  \<open>(argc, argv)\<close>, returns the handler's value and stores it in \<^verbatim>\<open>last_exit\<close>; when no
  command has that name, it prints the message, returns 127 and stores 127 in
  \<^verbatim>\<open>last_exit\<close>. The code 127 differs from \<^verbatim>\<open>SHELL_ERROR = 1\<close> and \<^verbatim>\<open>SHELL_OK = 0\<close>.
\<close>

theorem dispatch_exit_status:
  "(argv \<noteq> [] \<and> argc = int (length argv) \<and> shell_find_command g (argv ! 0) = Some i \<and>
      call (cmd_func (shell_commands g ! i)) argc argv g = (r, g') \<longrightarrow>
      shell_dispatch call g argc argv = (r, g'\<lparr>shell_state := (shell_state g')\<lparr>last_exit := r\<rparr>\<rparr>) \<and>
      last_exit (shell_state (snd (shell_dispatch call g argc argv))) = r)
   \<and> (argv \<noteq> [] \<and> argc = int (length argv) \<and> shell_find_command g (argv ! 0) = None \<longrightarrow>
      fst (shell_dispatch call g argc argv) = SHELL_NOT_FOUND \<and>
      last_exit (shell_state (snd (shell_dispatch call g argc argv))) = SHELL_NOT_FOUND \<and>
      err_out (snd (shell_dispatch call g argc argv))
        = err_out g @ [argv ! 0 @ '': command not found'' @ [NL]])
   \<and> SHELL_NOT_FOUND = 127 \<and> SHELL_NOT_FOUND \<noteq> SHELL_ERROR \<and> SHELL_NOT_FOUND \<noteq> SHELL_OK
   \<and> SHELL_ERROR = 1 \<and> SHELL_OK = 0"
  by (auto simp: shell_dispatch_def SHELL_NOT_FOUND_def SHELL_ERROR_def SHELL_OK_def)

theorem dispatch_exit_status_witness:
  "shell_dispatch sample_call sample_globals 1 [''false'']
     = (SHELL_ERROR, sample_globals\<lparr>shell_state := (shell_state sample_globals)\<lparr>last_exit := SHELL_ERROR\<rparr>\<rparr>)
   \<and> fst (shell_dispatch sample_call sample_globals 2 [''ls'', ''-l'']) = SHELL_NOT_FOUND
   \<and> last_exit (shell_state (snd (shell_dispatch sample_call sample_globals 2 [''ls'', ''-l''])))
       = SHELL_NOT_FOUND"
proof -
  have f: "shell_find_command sample_globals ([''false''] ! 0) = Some 1"
    by (simp add: shell_find_command_def sample_globals_def)
  have c: "sample_call (cmd_func (shell_commands sample_globals ! 1)) 1 [''false''] sample_globals
      = (SHELL_ERROR, sample_globals)"
    by (simp add: sample_call_def sample_globals_def)
  have n: "shell_find_command sample_globals ([''ls'', ''-l''] ! 0) = None"
    by (simp add: shell_find_command_def sample_globals_def)
  note a = dispatch_exit_status [of "[''false'']" 1 sample_globals 1 sample_call SHELL_ERROR
      sample_globals, THEN conjunct1, rule_format]
  note b = dispatch_exit_status [of "[''ls'', ''-l'']" 2 sample_globals 1 sample_call SHELL_ERROR
      sample_globals, THEN conjunct2, THEN conjunct1, rule_format]
  have "shell_dispatch sample_call sample_globals 1 [''false'']
     = (SHELL_ERROR, sample_globals\<lparr>shell_state := (shell_state sample_globals)\<lparr>last_exit := SHELL_ERROR\<rparr>\<rparr>)"
    using a f c by simp
  moreover have "fst (shell_dispatch sample_call sample_globals 2 [''ls'', ''-l'']) = SHELL_NOT_FOUND
      \<and> last_exit (shell_state (snd (shell_dispatch sample_call sample_globals 2 [''ls'', ''-l''])))
       = SHELL_NOT_FOUND"
    using b n by simp
  ultimately show ?thesis by blast
qed

subsection \<open>Script variables\<close>

lemma create_var_existing: "find_var ctx n = Some i \<Longrightarrow> create_var ctx n = (Some i, ctx)"
  by (simp add: create_var_def)

text \<open>
  Claim C5. When a name resolves to a variable whose \<^verbatim>\<open>readonly\<close> flag is set,
  \<^verbatim>\<open>script_set_var\<close> on that name returns \<^verbatim>\<open>SYSERR\<close> and leaves the context, hence the
  variable's type and value, as it was, whatever type and value are passed; and
  \<^verbatim>\<open>script_unset_var\<close> returns \<^verbatim>\<open>SYSERR\<close> and the variable stays defined.
\<close>

theorem readonly_rejects_mutation:
  "find_var ctx n = Some i \<and> var_readonly (vars ctx ! i) \<longrightarrow>
     var_defined (vars ctx ! i) \<and> var_name (vars ctx ! i) = n \<and>
     script_set_var ctx (Some n) ty val = (SYSERR, ctx) \<and>
     script_unset_var ctx (Some n) = (SYSERR, ctx) \<and>
     find_var (snd (script_unset_var ctx (Some n))) n = Some i \<and>
     vars (snd (script_set_var ctx (Some n) ty val)) ! i = vars ctx ! i"
proof (intro impI)
  assume a: "find_var ctx n = Some i \<and> var_readonly (vars ctx ! i)"
  then have f: "find_var ctx n = Some i" and ro: "var_readonly (vars ctx ! i)" by simp_all
  have d: "var_defined (vars ctx ! i) \<and> var_name (vars ctx ! i) = n"
    using first_slot_SomeD [OF f [unfolded find_var_def]] by simp
  have s: "script_set_var ctx (Some n) ty val = (SYSERR, ctx)"
    by (cases val) (simp_all add: script_set_var_def create_var_existing [OF f] ro)
  have u: "script_unset_var ctx (Some n) = (SYSERR, ctx)"
    by (simp add: script_unset_var_def f ro)
  from d s u f show "var_defined (vars ctx ! i) \<and> var_name (vars ctx ! i) = n \<and>
     script_set_var ctx (Some n) ty val = (SYSERR, ctx) \<and>
     script_unset_var ctx (Some n) = (SYSERR, ctx) \<and>
     find_var (snd (script_unset_var ctx (Some n))) n = Some i \<and>
     vars (snd (script_set_var ctx (Some n) ty val)) ! i = vars ctx ! i"
    by simp
qed

theorem readonly_rejects_mutation_witness:
  "script_set_var readonly_context (Some ''PI'') VAR_TYPE_STRING (Some (string_object ''three''))
     = (SYSERR, readonly_context)
   \<and> script_unset_var readonly_context (Some ''PI'') = (SYSERR, readonly_context)
   \<and> var_type (vars readonly_context ! 0) = VAR_TYPE_INT
   \<and> int_val (var_value (vars readonly_context ! 0)) = 3"
proof -
  have f: "find_var readonly_context ''PI'' = Some 0"
    by (simp add: find_var_def readonly_context_def)
  have r: "var_readonly (vars readonly_context ! 0)"
    by (simp add: readonly_context_def)
  note t = readonly_rejects_mutation [of readonly_context "''PI''" 0 VAR_TYPE_STRING
      "Some (string_object ''three'')", rule_format]
  have "script_set_var readonly_context (Some ''PI'') VAR_TYPE_STRING
      (Some (string_object ''three'')) = (SYSERR, readonly_context)
   \<and> script_unset_var readonly_context (Some ''PI'') = (SYSERR, readonly_context)"
    using t f r by blast
  then show ?thesis by (simp add: readonly_context_def)
qed

subsection \<open>The loop stack\<close>

lemma loop_sp_create_var [simp]: "loop_sp (snd (create_var ctx n)) = loop_sp ctx"
  by (simp add: create_var_def split: option.splits)

lemma loop_sp_set_var [simp]: "loop_sp (snd (script_set_var ctx name ty val)) = loop_sp ctx"
proof (cases "create_var ctx (the name)")
  case (Pair a ctx1)
  then have "loop_sp ctx1 = loop_sp ctx" using loop_sp_create_var [of ctx "the name"] by simp
  with Pair show ?thesis
    by (auto simp: script_set_var_def Let_def split: option.splits)
qed

lemma loop_sp_unset_var [simp]: "loop_sp (snd (script_unset_var ctx name)) = loop_sp ctx"
  by (simp add: script_unset_var_def split: option.splits)

lemma loop_sp_store_body [simp]: "loop_sp (snd (store_body m ctx i b n)) = loop_sp ctx"
  by (simp add: store_body_def Let_def)

lemma loop_sp_define_func [simp]:
  "loop_sp (snd (script_define_func m ctx name body n)) = loop_sp ctx"
  by (simp add: script_define_func_def split: option.splits)

lemma loop_sp_create_label [simp]: "loop_sp (snd (create_label ctx n ln)) = loop_sp ctx"
  by (simp add: create_label_def split: option.splits)

lemma loop_sp_goto_label [simp]: "loop_sp (snd (script_goto_label ctx l)) = loop_sp ctx"
  by (simp add: script_goto_label_def split: option.splits)

lemma loop_sp_break [simp]: "loop_sp (snd (script_break ctx)) = loop_sp ctx"
  by (simp add: script_break_def)

lemma loop_sp_continue [simp]: "loop_sp (snd (script_continue ctx)) = loop_sp ctx"
  by (simp add: script_continue_def)

lemma loop_sp_return [simp]: "loop_sp (snd (script_return ctx v)) = loop_sp ctx"
  by (simp add: script_return_def)

lemma loop_sp_label_part [simp]: "loop_sp (fst (label_part ctx p)) = loop_sp ctx"
  by (simp add: label_part_def Let_def)

lemma loop_sp_assign_part:
  "assign_part ctx p = Inr (r, c) \<Longrightarrow> loop_sp c = loop_sp ctx"
  by (auto simp: assign_part_def Let_def split: if_splits sum.splits)

lemma loop_sp_keyword_part:
  "keyword_part ctx p = Inr (r, c) \<Longrightarrow> loop_sp c = loop_sp ctx"
  by (auto simp: keyword_part_def Let_def script_break_def script_continue_def
      script_return_def script_goto_label_def split: if_splits sum.splits option.splits)

lemma loop_sp_execute_line:
  assumes "execute_line ctx line = Inr (r, c)"
  shows "loop_sp c = loop_sp ctx"
proof (cases "label_part ctx (dropWhile is_blank line)")
  case (Pair ctx1 p1)
  then have "loop_sp ctx1 = loop_sp ctx"
    using loop_sp_label_part [of ctx "dropWhile is_blank line"] by simp
  with Pair assms show ?thesis
    using loop_sp_assign_part [of ctx1 p1 r c] loop_sp_keyword_part [of ctx1 p1 r c]
    by (auto simp: execute_line_def Let_def split: if_splits)
qed

lemma loop_sp_script_execute_line:
  "script_execute_line ctx line = Inr (r, c) \<Longrightarrow> loop_sp c = loop_sp ctx"
  by (auto simp: script_execute_line_def loop_sp_execute_line split: option.splits)

lemma loop_sp_run_lines:
  "run_lines ctx ls = Inr c \<Longrightarrow> loop_sp c = loop_sp ctx"
proof (induction ls arbitrary: ctx)
  case Nil
  then show ?case by simp
next
  case (Cons l ls)
  show ?case
  proof (cases "running ctx")
    case False
    with Cons.prems show ?thesis by simp
  next
    case True
    with Cons.prems obtain r c' where
      e: "execute_line (ctx\<lparr>line_num := line_num ctx + 1\<rparr>) l = Inr (r, c')"
      by (auto split: sum.splits)
    have s: "loop_sp c' = loop_sp ctx" using loop_sp_execute_line [OF e] by simp
    show ?thesis
    proof (cases "r = OK")
      case True
      with Cons.prems e \<open>running ctx\<close> have "run_lines c' ls = Inr c" by simp
      then show ?thesis using Cons.IH s by simp
    next
      case False
      with Cons.prems e \<open>running ctx\<close> have "c = c'" by simp
      then show ?thesis using s by simp
    qed
  qed
qed

lemma loop_sp_execute:
  assumes "script_execute m ctx script = Inr (r, c)"
  shows "loop_sp c = loop_sp ctx"
proof (cases "script \<noteq> None \<and> m")
  case False
  with assms show ?thesis by (auto simp: script_execute_def split: option.splits)
next
  case True
  then obtain s where s: "script = Some s" by auto
  with assms True obtain c' where
    e: "run_lines (ctx\<lparr>running := True, line_num := 0\<rparr>) (strtok_lines [] s) = Inr c'"
    and c: "c = c'\<lparr>running := False\<rparr>"
    by (auto simp: script_execute_def split: sum.splits)
  show ?thesis using loop_sp_run_lines [OF e] c by simp
qed

lemma loop_sp_execute_file [simp]: "loop_sp (snd (script_execute_file ctx f)) = loop_sp ctx"
  by (simp add: script_execute_file_def)

lemma loop_sp_bind_params [simp]: "loop_sp (bind_params ctx i k argv) = loop_sp ctx"
  by (induction k arbitrary: ctx i) simp_all

lemma loop_sp_call_func:
  assumes "script_call_func m ctx name argv = Inr (r, c)"
  shows "loop_sp c = loop_sp ctx"
proof (cases name)
  case None
  with assms show ?thesis by (simp add: script_call_func_def)
next
  case (Some n)
  show ?thesis
  proof (cases "find_func ctx n")
    case None
    with Some assms show ?thesis by (simp add: script_call_func_def)
  next
    case (Some i)
    let ?c2 = "bind_params
        (ctx\<lparr>call_stack := (call_stack ctx)[nat (call_sp ctx) := line_num ctx],
             call_sp := call_sp ctx + 1\<rparr>) 0
        (nat (min (func_num_params (funcs ctx ! i)) (int (length argv)))) argv"
    show ?thesis
    proof (cases "call_sp ctx \<ge> SCRIPT_MAX_STACK")
      case True
      with Some \<open>name = Some n\<close> assms show ?thesis by (simp add: script_call_func_def)
    next
      case False
      with Some \<open>name = Some n\<close> assms obtain r3 c3 where
        e: "script_execute m ?c2 (func_body (funcs ctx ! i)) = Inr (r3, c3)"
        and c: "c = (if call_sp c3 > 0
                     then c3\<lparr> line_num := call_stack c3 ! nat (call_sp c3 - 1),
                              call_sp := call_sp c3 - 1 \<rparr>
                     else c3)"
        by (auto simp: script_call_func_def Let_def split: sum.splits)
      have "loop_sp c3 = loop_sp ctx" using loop_sp_execute [OF e] by simp
      then show ?thesis using c by simp
    qed
  qed
qed

lemma loop_sp_reset [simp]: "loop_sp (script_reset_context ctx) = 0"
  by (simp add: script_reset_context_def)

subsection \<open>Evaluation without a variable reference\<close>

lemma set_tl_subset: "set (tl xs) \<subseteq> set xs"
  by (cases xs) auto

lemma set_dropWhile_subset: "set (dropWhile P xs) \<subseteq> set xs"
  by (auto dest: set_dropWhileD)

lemma eval_int_no_reference:
  assumes "CHR ''$'' \<notin> set expr"
  shows "\<exists>v. script_eval_int ctx expr = Inr v"
proof -
  define q where "q = dropWhile is_blank expr"
  have "set q \<subseteq> set expr" unfolding q_def by (rule set_dropWhile_subset)
  then have n: "CHR ''$'' \<notin> set q" using assms by blast
  show ?thesis
  proof (cases q)
    case Nil
    then show ?thesis unfolding script_eval_int_def Let_def q_def [symmetric] by simp
  next
    case (Cons a r)
    with n have a: "a \<noteq> CHR ''$''" and r: "CHR ''$'' \<notin> set r" by auto
    then have hr: "r \<noteq> [] \<Longrightarrow> hd r \<noteq> CHR ''$''" by (cases r) auto
    show ?thesis
      unfolding script_eval_int_def Let_def q_def [symmetric] Cons using a hr by auto
  qed
qed

lemma eval_bool_no_reference:
  assumes "CHR ''$'' \<notin> set expr"
  shows "\<exists>b. script_eval_bool ctx expr = Inr b"
proof -
  obtain v where v: "script_eval_int ctx expr = Inr v"
    using eval_int_no_reference [OF assms] by blast
  define q where "q = dropWhile is_blank expr"
  have "script_eval_bool ctx expr =
      Inr (if q = [] then False
           else if q = ''true'' \<or> q = ''TRUE'' \<or> q = ''1'' then True
           else if q = ''false'' \<or> q = ''FALSE'' \<or> q = ''0'' then False
           else v \<noteq> 0)"
    unfolding script_eval_bool_def Let_def q_def [symmetric] v by simp
  then show ?thesis by (rule exI)
qed

lemma assign_part_no_reference:
  assumes "CHR ''$'' \<notin> set p"
  shows "\<exists>r c. assign_part ctx p = Inr (r, c)"
proof -
  define w where "w = dropWhile is_blank (tl (dropWhile (\<lambda>c. c \<noteq> CHR ''='') p))"
  have "set w \<subseteq> set p"
    unfolding w_def
    using set_dropWhile_subset [of is_blank "tl (dropWhile (\<lambda>c. c \<noteq> CHR ''='') p)"]
      set_tl_subset [of "dropWhile (\<lambda>c. c \<noteq> CHR ''='') p"]
      set_dropWhile_subset [of "\<lambda>c. c \<noteq> CHR ''=''" p]
    by blast
  then have "CHR ''$'' \<notin> set w" using assms by blast
  then obtain v where v: "script_eval_int ctx w = Inr v"
    using eval_int_no_reference by blast
  show ?thesis
    unfolding assign_part_def Let_def w_def [symmetric] v by simp
qed

lemma keyword_part_no_reference:
  assumes "CHR ''$'' \<notin> set p"
  shows "\<exists>r c. keyword_part ctx p = Inr (r, c)"
proof -
  have d: "CHR ''$'' \<notin> set (drop n p)" for n using assms by (meson in_set_dropD)
  have dw: "CHR ''$'' \<notin> set (dropWhile is_blank (drop n p))" for n
    using d by (meson set_dropWhileD)
  obtain b3 where b3: "script_eval_bool ctx (drop 3 p) = Inr b3"
    using eval_bool_no_reference [OF d] by blast
  obtain b6 where b6: "script_eval_bool ctx (drop 6 p) = Inr b6"
    using eval_bool_no_reference [OF d] by blast
  obtain v6 where v6: "script_eval_int ctx (dropWhile is_blank (drop 6 p)) = Inr v6"
    using eval_int_no_reference [OF dw] by blast
  obtain v where v: "script_eval_int ctx p = Inr v"
    using eval_int_no_reference [OF assms] by blast
  have pr: "\<exists>r c. Inr x = (Inr (r, c) :: fault + int \<times> script_context_t)" for x
    by (cases x) simp
  have br: "(\<exists>r k. a = (Inr (r, k) :: fault + int \<times> script_context_t)) \<Longrightarrow>
            (\<exists>r k. b = Inr (r, k)) \<Longrightarrow> \<exists>r k. (if t then a else b) = Inr (r, k)" for t a b
    by simp
  show ?thesis
    unfolding keyword_part_def Let_def b3 b6 v6 v sum.case
    by (intro br pr)
qed

lemma execute_line_no_reference:
  assumes "CHR ''$'' \<notin> set line"
  shows "\<exists>r c. execute_line ctx line = Inr (r, c)"
proof (cases "label_part ctx (dropWhile is_blank line)")
  case (Pair ctx1 p1)
  have p: "CHR ''$'' \<notin> set (dropWhile is_blank line)"
    using assms by (meson set_dropWhileD)
  let ?q = "dropWhile is_blank line"
  have "set (dropWhile is_blank (tl (dropWhile (\<lambda>c. c \<noteq> CHR '':'') ?q))) \<subseteq> set ?q"
    using set_dropWhile_subset [of is_blank "tl (dropWhile (\<lambda>c. c \<noteq> CHR '':'') ?q)"]
      set_tl_subset [of "dropWhile (\<lambda>c. c \<noteq> CHR '':'') ?q"]
      set_dropWhile_subset [of "\<lambda>c. c \<noteq> CHR '':''" ?q]
    by blast
  moreover have "p1 = ?q \<or> p1 = dropWhile is_blank (tl (dropWhile (\<lambda>c. c \<noteq> CHR '':'') ?q))"
    using Pair by (simp add: label_part_def Let_def split: if_splits)
  ultimately have "set p1 \<subseteq> set (dropWhile is_blank line)" by auto
  then have p1: "CHR ''$'' \<notin> set p1" using p by blast
  have pr: "\<exists>r c. Inr (OK, x) = (Inr (r, c) :: fault + int \<times> script_context_t)" for x
    by simp
  have br: "(\<exists>r k. a = (Inr (r, k) :: fault + int \<times> script_context_t)) \<Longrightarrow>
            (\<exists>r k. b = Inr (r, k)) \<Longrightarrow> \<exists>r k. (if t then a else b) = Inr (r, k)" for t a b
    by simp
  show ?thesis
    unfolding execute_line_def Let_def Pair prod.case
    by (intro br pr assign_part_no_reference [OF p1] keyword_part_no_reference [OF p1])
qed

lemma run_lines_no_reference:
  "\<forall>l\<in>set ls. CHR ''$'' \<notin> set l \<Longrightarrow> \<exists>c. run_lines ctx ls = Inr c"
proof (induction ls arbitrary: ctx)
  case Nil
  show ?case by simp
next
  case (Cons l ls)
  obtain r c' where e: "execute_line (ctx\<lparr>line_num := line_num ctx + 1\<rparr>) l = Inr (r, c')"
    using execute_line_no_reference [of l] Cons.prems by force
  obtain c where "run_lines c' ls = Inr c" using Cons.IH Cons.prems by force
  with e show ?case by simp
qed

lemma strtok_lines_chars:
  "l \<in> set (strtok_lines cur s) \<Longrightarrow> set l \<subseteq> set cur \<union> set s"
  by (induction cur s rule: strtok_lines.induct) (auto split: if_splits)

lemma script_execute_no_reference:
  assumes "CHR ''$'' \<notin> set s"
  shows "\<exists>r c. script_execute mem_ok ctx (Some s) = Inr (r, c)"
proof -
  have "\<forall>l\<in>set (strtok_lines [] s). CHR ''$'' \<notin> set l"
    using assms strtok_lines_chars [of _ "[]" s] by auto
  then obtain c where
    "run_lines (ctx\<lparr>running := True, line_num := 0\<rparr>) (strtok_lines [] s) = Inr c"
    using run_lines_no_reference by blast
  then show ?thesis by (simp add: script_execute_def)
qed

text \<open>
  Claim C9. In every context reachable from creation or reset through the public
  functions the loop stack pointer is 0, so \<^verbatim>\<open>script_break\<close> and \<^verbatim>\<open>script_continue\<close>
  return \<^verbatim>\<open>SYSERR\<close> and change nothing.
\<close>

theorem loop_stack_never_pushed:
  "reachable ctx \<Longrightarrow>
     loop_sp ctx = 0 \<and> script_break ctx = (SYSERR, ctx) \<and> script_continue ctx = (SYSERR, ctx)"
proof -
  assume "reachable ctx"
  then have "loop_sp ctx = 0"
  proof (induction rule: reachable.induct)
    case (reach_call_func ctx mem_ok name argv r ctx')
    then show ?case using loop_sp_call_func by simp
  next
    case (reach_execute_line ctx line r ctx')
    then show ?case using loop_sp_script_execute_line by simp
  next
    case (reach_execute ctx mem_ok script r ctx')
    then show ?case using loop_sp_execute by simp
  qed simp_all
  then show ?thesis by (simp add: script_break_def script_continue_def)
qed

theorem loop_stack_never_pushed_witness:
  "script_execute True (script_reset_context zero_context) (Some ''while 1'')
     = Inr (0, (script_reset_context zero_context)\<lparr>line_num := 1\<rparr>)
   \<and> loop_sp ((script_reset_context zero_context)\<lparr>line_num := 1\<rparr>) = 0
   \<and> script_break ((script_reset_context zero_context)\<lparr>line_num := 1\<rparr>)
      = (SYSERR, (script_reset_context zero_context)\<lparr>line_num := 1\<rparr>)
   \<and> script_continue ((script_reset_context zero_context)\<lparr>line_num := 1\<rparr>)
      = (SYSERR, (script_reset_context zero_context)\<lparr>line_num := 1\<rparr>)"
proof -
  have e: "script_execute True (script_reset_context zero_context) (Some ''while 1'')
     = Inr (0, (script_reset_context zero_context)\<lparr>line_num := 1\<rparr>)"
    by (simp add: script_execute_def execute_line_def label_part_def has_label_def
        is_assignment_def keyword_part_def script_eval_bool_def is_blank_def Let_def
        script_reset_context_def)
  note t = loop_stack_never_pushed [OF reach_execute [OF reach_reset e]]
  from e t show ?thesis by simp
qed

subsection \<open>Control keywords\<close>










text \<open>The script of two lines \<^verbatim>\<open>s = ZZZZ\<close> and \<^verbatim>\<open>if $s\<close> overruns.\<close>

lemma string_context_made:
  assumes "vars c = vars zero_context"
  shows "execute_line c ''s = ZZZZ''
    = Inr (OK, c\<lparr>vars := vars string_context, var_count := var_count c + 1\<rparr>)"
proof -
  let ?v = "\<lparr> var_name = [], var_type = VAR_TYPE_INT,
           var_value = \<lparr>int_val = 0, float_val = 0, str_val = [], array_val = 0\<rparr>,
           var_readonly = False, var_exported = False, var_defined = False \<rparr>"
  have v: "vars c = replicate 128 ?v"
    using assms by (simp add: zero_context_def SCRIPT_MAX_VARS_def)
  have r: "replicate 128 ?v = ?v # replicate 127 ?v"
    using replicate_Suc [of 127 ?v] by simp
  have u: "(replicate 128 ?v)[0 := w] = w # replicate 127 ?v" for w
    by (simp add: r)
  have f: "first_slot (\<lambda>v. \<not> var_defined v) (replicate 128 ?v) = Some 0"
    by (simp add: first_slot_replicate)
  have n: "first_slot (\<lambda>v. var_defined v \<and> var_name v = ''s'') (replicate 128 ?v) = None"
    by (simp add: first_slot_replicate)
  show ?thesis
    by (simp add: execute_line_def label_part_def has_label_def is_assignment_def
        assign_part_def is_blank_def is_digit_def char_code_def Let_def
        script_set_var_def create_var_def find_var_def v f n
        store_value_def string_object_def zero_context_def string_context_def
        SCRIPT_VAR_NAME_LEN_def SCRIPT_VAR_VAL_LEN_def SCRIPT_MAX_VARS_def u)
qed

lemma condition_overruns:
  assumes "vars c = vars string_context"
  shows "execute_line c ''if $s'' = Inl Overrun"
proof -
  have f: "find_var c ''s'' = Some 0"
    using assms by (simp add: find_var_def string_context_def)
  have g: "script_get_var c (Some ''s'') True True
      = (OK, Some VAR_TYPE_STRING, Some (StString ''ZZZZ''))"
    using assms by (simp add: script_get_var_def f load_value_def string_context_def)
  have i: "script_eval_int c ''$s'' = Inl Overrun"
    by (simp add: script_eval_int_def is_blank_def isalnum_def is_digit_def char_code_def g)
  have b: "script_eval_bool c ''$s'' = Inl Overrun"
    by (simp add: script_eval_bool_def is_blank_def i)
  show ?thesis
    by (simp add: execute_line_def label_part_def has_label_def is_assignment_def
        keyword_part_def is_blank_def b)
qed

lemma condition_overrun_example:
  "execute_line string_context ''if $s'' = Inl Overrun
   \<and> script_execute True zero_context (Some (''s = ZZZZ'' @ [NL] @ ''if $s'')) = Inl Overrun"
proof -
  have a: "execute_line string_context ''if $s'' = Inl Overrun"
    by (rule condition_overruns) simp
  have l: "strtok_lines [] (''s = ZZZZ'' @ [NL] @ ''if $s'') = [''s = ZZZZ'', ''if $s'']"
    by simp
  let ?c0 = "zero_context\<lparr>running := True, line_num := 0\<rparr>"
  let ?c1 = "?c0\<lparr>line_num := line_num ?c0 + 1\<rparr>"
  let ?c2 = "?c1\<lparr>vars := vars string_context, var_count := var_count ?c1 + 1\<rparr>"
  have e1: "execute_line ?c1 ''s = ZZZZ'' = Inr (OK, ?c2)"
    by (rule string_context_made) simp
  have e2: "execute_line (?c2\<lparr>line_num := line_num ?c2 + 1\<rparr>) ''if $s'' = Inl Overrun"
    by (rule condition_overruns) simp
  have "run_lines ?c0 [''s = ZZZZ'', ''if $s''] = Inl Overrun"
    by (simp only: run_lines.simps e1 e2 sum.case prod.case) simp
  then have "script_execute True zero_context (Some (''s = ZZZZ'' @ [NL] @ ''if $s''))
      = Inl Overrun"
    unfolding script_execute_def l by simp
  with a show ?thesis by (rule conjI)
qed



subsection \<open>Labels\<close>

lemma find_label_cong: "labels c1 = labels c2 \<Longrightarrow> find_label c1 m = find_label c2 m"
  by (simp add: find_label_def)

lemma labels_create_var [simp]: "labels (snd (create_var ctx n)) = labels ctx"
  by (simp add: create_var_def split: option.splits)

lemma labels_set_var [simp]: "labels (snd (script_set_var ctx name ty val)) = labels ctx"
proof (cases "create_var ctx (the name)")
  case (Pair a ctx1)
  then have "labels ctx1 = labels ctx" using labels_create_var [of ctx "the name"] by simp
  with Pair show ?thesis
    by (auto simp: script_set_var_def Let_def split: option.splits)
qed

lemma labels_goto_label [simp]: "labels (snd (script_goto_label ctx l)) = labels ctx"
  by (simp add: script_goto_label_def split: option.splits)

lemma labels_assign_part: "assign_part ctx p = Inr (r, c) \<Longrightarrow> labels c = labels ctx"
  by (auto simp: assign_part_def Let_def split: if_splits sum.splits)

lemma labels_keyword_part: "keyword_part ctx p = Inr (r, c) \<Longrightarrow> labels c = labels ctx"
  by (auto simp: keyword_part_def Let_def script_break_def script_continue_def
      script_return_def script_goto_label_def split: if_splits sum.splits option.splits)

lemma labels_execute_line:
  assumes "execute_line ctx line = Inr (r, c)"
  shows "labels c =
     (case line_label line of
        Some l \<Rightarrow> if length l < SCRIPT_VAR_NAME_LEN
                  then labels (snd (create_label ctx l (line_num ctx))) else labels ctx
      | None \<Rightarrow> labels ctx)"
proof (cases "label_part ctx (dropWhile is_blank line)")
  case (Pair ctx1 p1)
  have l1: "labels ctx1 =
      (if has_label (dropWhile is_blank line) \<and>
          length (takeWhile (\<lambda>c. c \<noteq> CHR '':'') (dropWhile is_blank line)) < SCRIPT_VAR_NAME_LEN
       then labels (snd (create_label ctx
              (takeWhile (\<lambda>c. c \<noteq> CHR '':'') (dropWhile is_blank line)) (line_num ctx)))
       else labels ctx)"
    using Pair by (auto simp: label_part_def Let_def split: if_splits)
  show ?thesis
    using assms Pair l1 labels_assign_part [of ctx1 p1 r c] labels_keyword_part [of ctx1 p1 r c]
    by (auto simp: execute_line_def line_label_def Let_def split: if_splits)
qed

lemma find_label_create_other:
  assumes "length name < SCRIPT_VAR_NAME_LEN" "m \<noteq> name"
  shows "find_label (snd (create_label ctx name ln)) m = find_label ctx m"
proof (cases "find_label ctx name")
  case (Some i)
  then show ?thesis
    by (simp add: create_label_def find_label_def first_slot_update_same)
next
  case None
  show ?thesis
  proof (cases "first_slot (\<lambda>l. \<not> label_defined l) (labels ctx)")
    case None
    with \<open>find_label ctx name = None\<close> show ?thesis by (simp add: create_label_def)
  next
    case (Some j)
    then have "\<not> label_defined (labels ctx ! j)" using first_slot_SomeD by fastforce
    moreover have "take (SCRIPT_VAR_NAME_LEN - 1) name = name" using assms(1) by simp
    ultimately show ?thesis
      using Some \<open>find_label ctx name = None\<close> assms(2)
      by (simp add: create_label_def find_label_def first_slot_update_same)
  qed
qed

lemma find_label_create_keep:
  assumes "length name < SCRIPT_VAR_NAME_LEN" "find_label ctx m = Some i"
  shows "find_label (snd (create_label ctx name ln)) m = Some i"
proof (cases "m = name")
  case False
  then show ?thesis using find_label_create_other [OF assms(1)] assms(2) by simp
next
  case True
  then show ?thesis
    using assms(2) by (simp add: create_label_def find_label_def first_slot_update_same)
qed

lemma find_label_create_same:
  assumes "length name < SCRIPT_VAR_NAME_LEN" "label_room ctx name"
  shows "\<exists>i. find_label (snd (create_label ctx name ln)) name = Some i \<and>
             label_line_num (labels (snd (create_label ctx name ln)) ! i) = ln"
proof (cases "find_label ctx name")
  case (Some i)
  then have "i < length (labels ctx)"
    using first_slot_SomeD [of _ "labels ctx" i] by (simp add: find_label_def)
  then show ?thesis
    using Some by (simp add: create_label_def find_label_def first_slot_update_same)
next
  case None
  then obtain j where j: "first_slot (\<lambda>l. \<not> label_defined l) (labels ctx) = Some j"
    using assms(2) by (auto simp: label_room_def)
  then have lt: "j < length (labels ctx)" using first_slot_SomeD by fastforce
  have tk: "take (SCRIPT_VAR_NAME_LEN - Suc 0) name = name" using assms(1) by simp
  have "first_slot (\<lambda>l. label_defined l \<and> label_name l = name)
      ((labels ctx)[j := (labels ctx ! j)\<lparr>label_defined := True, label_name := name,
          label_line_num := ln\<rparr>]) = Some j"
    using None lt by (intro first_slot_update_new) (simp_all add: find_label_def)
  then show ?thesis
    using None j lt by (simp add: create_label_def find_label_def tk)
qed

lemma find_label_execute_other:
  assumes "find_label ctx m = None" "line_label line \<noteq> Some m"
    and e: "execute_line ctx line = Inr (r, c)"
  shows "find_label c m = None"
proof (cases "line_label line")
  case None
  then have "labels c = labels ctx"
    by (simp add: labels_execute_line [OF e])
  then show ?thesis using assms(1) find_label_cong by metis
next
  case (Some l)
  show ?thesis
  proof (cases "length l < SCRIPT_VAR_NAME_LEN")
    case True
    then have "labels c = labels (snd (create_label ctx l (line_num ctx)))"
      using Some by (simp add: labels_execute_line [OF e])
    then have "find_label c m = find_label (snd (create_label ctx l (line_num ctx))) m"
      by (rule find_label_cong)
    also have "\<dots> = find_label ctx m"
      using find_label_create_other [OF True] Some assms(2) by simp
    finally show ?thesis using assms(1) by simp
  next
    case False
    then have "labels c = labels ctx"
      using Some by (simp add: labels_execute_line [OF e])
    then show ?thesis using assms(1) find_label_cong by metis
  qed
qed

lemma find_label_execute_keep:
  assumes "find_label ctx m = Some i" and e: "execute_line ctx line = Inr (r, c)"
  shows "find_label c m = Some i"
proof (cases "line_label line")
  case None
  then have "labels c = labels ctx"
    by (simp add: labels_execute_line [OF e])
  then show ?thesis using assms(1) find_label_cong by metis
next
  case (Some l)
  show ?thesis
  proof (cases "length l < SCRIPT_VAR_NAME_LEN")
    case True
    then have "labels c = labels (snd (create_label ctx l (line_num ctx)))"
      using Some by (simp add: labels_execute_line [OF e])
    then have "find_label c m = find_label (snd (create_label ctx l (line_num ctx))) m"
      by (rule find_label_cong)
    then show ?thesis using find_label_create_keep [OF True assms(1)] by simp
  next
    case False
    then have "labels c = labels ctx"
      using Some by (simp add: labels_execute_line [OF e])
    then show ?thesis using assms(1) find_label_cong by metis
  qed
qed

lemma find_label_execute_defined:
  assumes "line_label line = Some l" "length l < SCRIPT_VAR_NAME_LEN" "label_room ctx l"
    and e: "execute_line ctx line = Inr (r, c)"
  shows "\<exists>i. find_label c l = Some i \<and> label_line_num (labels c ! i) = line_num ctx"
proof -
  have l: "labels c = labels (snd (create_label ctx l (line_num ctx)))"
    using assms(1,2) by (simp add: labels_execute_line [OF e])
  then have "find_label c l = find_label (snd (create_label ctx l (line_num ctx))) l"
    by (rule find_label_cong)
  then show ?thesis
    using find_label_create_same [OF assms(2,3), of "line_num ctx"] l by simp
qed

lemma find_label_line_num [simp]: "find_label (ctx\<lparr>line_num := n\<rparr>) m = find_label ctx m"
  by (simp add: find_label_def)

lemma find_label_running [simp]: "find_label (ctx\<lparr>running := b\<rparr>) m = find_label ctx m"
  by (simp add: find_label_def)

lemma run_lines_step:
  assumes "run_lines ctx (l # ls) = Inr c" "running ctx"
  obtains r c' where "execute_line (ctx\<lparr>line_num := line_num ctx + 1\<rparr>) l = Inr (r, c')"
    and "if r = OK then run_lines c' ls = Inr c else c = c'"
  using assms by (auto split: sum.splits if_splits)

lemma find_label_run_other:
  assumes "find_label ctx m = None" "\<forall>l\<in>set ls. line_label l \<noteq> Some m"
    and "run_lines ctx ls = Inr c"
  shows "find_label c m = None"
  using assms
proof (induction ls arbitrary: ctx)
  case Nil
  then show ?case by simp
next
  case (Cons l ls)
  show ?case
  proof (cases "running ctx")
    case False
    with Cons.prems show ?thesis by simp
  next
    case True
    let ?c = "ctx\<lparr>line_num := line_num ctx + 1\<rparr>"
    from Cons.prems(3) True obtain r c' where e: "execute_line ?c l = Inr (r, c')"
      and k: "if r = OK then run_lines c' ls = Inr c else c = c'"
      by (rule run_lines_step)
    have n: "find_label c' m = None"
      using Cons.prems(1,2) by (intro find_label_execute_other [OF _ _ e]) simp_all
    show ?thesis
    proof (cases "r = OK")
      case True
      with k have "run_lines c' ls = Inr c" by simp
      then show ?thesis using Cons.IH [OF n] Cons.prems(2) by simp
    next
      case False
      with k n show ?thesis by simp
    qed
  qed
qed

lemma find_label_run_keep:
  assumes "find_label ctx m = Some i" "run_lines ctx ls = Inr c"
  shows "find_label c m = Some i"
  using assms
proof (induction ls arbitrary: ctx)
  case Nil
  then show ?case by simp
next
  case (Cons l ls)
  show ?case
  proof (cases "running ctx")
    case False
    with Cons.prems show ?thesis by simp
  next
    case True
    let ?c = "ctx\<lparr>line_num := line_num ctx + 1\<rparr>"
    from Cons.prems(2) True obtain r c' where e: "execute_line ?c l = Inr (r, c')"
      and k: "if r = OK then run_lines c' ls = Inr c else c = c'"
      by (rule run_lines_step)
    have n: "find_label c' m = Some i"
      using Cons.prems(1) by (intro find_label_execute_keep [OF _ e]) simp
    show ?thesis
    proof (cases "r = OK")
      case True
      with k have "run_lines c' ls = Inr c" by simp
      then show ?thesis using Cons.IH [OF n] by simp
    next
      case False
      with k n show ?thesis by simp
    qed
  qed
qed

lemma script_execute_ran:
  assumes "script_execute mem_ok ctx (Some s) = Inr (r, c)"
  shows "c = ctx \<or>
    (\<exists>c'. run_lines (ctx\<lparr>running := True, line_num := 0\<rparr>) (strtok_lines [] s) = Inr c' \<and>
          c = c'\<lparr>running := False\<rparr>)"
  using assms by (auto simp: script_execute_def split: if_splits sum.splits)

lemma find_label_script_execute_other:
  assumes "find_label ctx m = None" "\<forall>l\<in>set (strtok_lines [] s). line_label l \<noteq> Some m"
    and e: "script_execute mem_ok ctx (Some s) = Inr (r, c)"
  shows "find_label c m = None"
  using script_execute_ran [OF e] assms(1)
    find_label_run_other [of "ctx\<lparr>running := True, line_num := 0\<rparr>" m "strtok_lines [] s", OF _ assms(2)]
  by auto

lemma find_label_script_execute_keep:
  assumes "find_label ctx m = Some i" and e: "script_execute mem_ok ctx script = Inr (r, c)"
  shows "find_label c m = Some i"
proof (cases script)
  case None
  with e assms(1) show ?thesis by (simp add: script_execute_def)
next
  case (Some s)
  show ?thesis
    using script_execute_ran [OF e [unfolded Some]] assms(1)
      find_label_run_keep [of "ctx\<lparr>running := True, line_num := 0\<rparr>" m i "strtok_lines [] s"]
    by auto
qed

lemma find_label_reset: "find_label (script_reset_context ctx) m = None"
  by (simp add: find_label_def script_reset_context_def first_slot_None_iff)

lemma goto_unknown: "find_label ctx m = None \<Longrightarrow> script_goto_label ctx (Some m) = (SYSERR, ctx)"
  by (simp add: script_goto_label_def)

lemma goto_known:
  "find_label ctx m = Some i \<Longrightarrow>
   script_goto_label ctx (Some m) = (OK, ctx\<lparr>line_num := label_line_num (labels ctx ! i)\<rparr>)"
  by (simp add: script_goto_label_def)

lemma execute_goto_line:
  assumes "l \<noteq> []" "\<not> is_blank (hd l)" "CHR '':'' \<notin> set l" "CHR ''='' \<notin> set l"
  shows "execute_line ctx (''goto '' @ l) = Inr (script_goto_label ctx (Some l))"
proof -
  obtain a r where l: "l = a # r" using assms(1) by (cases l) auto
  have d: "dropWhile is_blank l = l" using assms(2) l by simp
  have k: "keyword_part ctx (''goto '' @ l) = Inr (script_goto_label ctx (Some l))"
    using assms(2) by (simp add: keyword_part_def l)
  have na: "\<not> is_assignment (''goto '' @ l)"
    using assms(4) by (simp add: is_assignment_def)
  have nl: "\<not> has_label (''goto '' @ l)"
    using assms(3) by (simp add: has_label_def)
  have lp: "label_part ctx (''goto '' @ l) = (ctx, ''goto '' @ l)"
    using nl by (simp add: label_part_def)
  have p: "dropWhile is_blank (''goto '' @ l) = ''goto '' @ l" by (simp add: is_blank_def)
  show ?thesis
    unfolding execute_line_def p Let_def lp using na nl k by simp
qed

text \<open>
  Claim C3, as stated, fails for a label of 64 characters: \<^verbatim>\<open>execute_line\<close> records a
  label only when it is shorter than \<^verbatim>\<open>SCRIPT_VAR_NAME_LEN\<close>, so after the defining
  line has been executed, and has returned \<^verbatim>\<open>OK\<close>, the \<^verbatim>\<open>goto\<close> still fails.
\<close>

theorem long_label_counterexample:
  "line_label (replicate 64 (CHR ''a'') @ '':'') = Some (replicate 64 (CHR ''a''))
   \<and> (case script_execute_line (script_reset_context zero_context)
              (Some (replicate 64 (CHR ''a'') @ '':'')) of
        Inl f \<Rightarrow> False
      | Inr (r, c) \<Rightarrow>
          r = OK \<and> fst (script_goto_label c (Some (replicate 64 (CHR ''a'')))) = SYSERR)"
proof -
  let ?l = "replicate 64 (CHR ''a'')" and ?c = "script_reset_context zero_context"
  have d: "dropWhile is_blank (?l @ '':'') = ?l @ '':''"
    by (simp add: dropWhile_append is_blank_def)
  have t: "takeWhile (\<lambda>c. c \<noteq> CHR '':'') (?l @ '':'') = ?l"
    by (simp add: takeWhile_append)
  have dw: "dropWhile (\<lambda>c. c \<noteq> CHR '':'') (?l @ '':'') = '':''"
    by (simp add: dropWhile_append)
  have h: "hd (?l @ '':'') = CHR ''a''" by (simp add: hd_append)
  have hl: "has_label (?l @ '':'')" using h by (simp add: has_label_def)
  have ll: "line_label (?l @ '':'') = Some ?l"
    unfolding line_label_def d Let_def t using h hl by simp
  have lp: "label_part ?c (?l @ '':'') = (?c, [])"
    unfolding label_part_def Let_def t dw using hl by (simp add: SCRIPT_VAR_NAME_LEN_def)
  have e: "execute_line ?c (?l @ '':'') = Inr (OK, ?c)"
    unfolding execute_line_def Let_def d lp using h hl by simp
  have "fst (script_goto_label ?c (Some ?l)) = SYSERR"
    by (simp add: goto_unknown find_label_reset)
  with ll e show ?thesis by (simp add: script_execute_line_def)
qed

text \<open>
  Claim C3, amended. After a reset no label is recorded. \<^verbatim>\<open>script_goto_label\<close> fails
  and changes nothing while the label is not recorded; executing lines none of which
  defines the label does not record it, so a \<^verbatim>\<open>goto\<close> line that comes before the
  defining line fails. Once a line defining the label has been executed, the label being
  shorter than \<^verbatim>\<open>SCRIPT_VAR_NAME_LEN\<close> and the label table having the label or a free
  slot, \<^verbatim>\<open>script_goto_label\<close> succeeds and sets the line number to the one the defining
  line was executed at; and a recorded label stays recorded through every later line.
  Executing is meant as returning: a line or a script that holds no \<^verbatim>\<open>$\<close> always
  returns, one that reads a variable through \<^verbatim>\<open>$\<close> may stop with the fault instead,
  and then there is no context left to jump in.
\<close>

theorem goto_label_resolution:
  "find_label (script_reset_context c0) l = None
   \<and> (find_label ctx l = None \<longrightarrow> script_goto_label ctx (Some l) = (SYSERR, ctx))
   \<and> (find_label ctx l = None \<and> (\<forall>x\<in>set (strtok_lines [] script). line_label x \<noteq> Some l) \<and>
        script_execute mem_ok ctx (Some script) = Inr (r1, c1) \<longrightarrow>
        script_goto_label c1 (Some l) = (SYSERR, c1))
   \<and> (find_label ctx l = None \<and> (\<forall>x\<in>set ls. line_label x \<noteq> Some l) \<and>
        l \<noteq> [] \<and> \<not> is_blank (hd l) \<and> CHR '':'' \<notin> set l \<and> CHR ''='' \<notin> set l \<and>
        run_lines ctx ls = Inr c2 \<longrightarrow>
        execute_line c2 (''goto '' @ l) = Inr (SYSERR, c2))
   \<and> (line_label line = Some l \<and> length l < SCRIPT_VAR_NAME_LEN \<and> label_room ctx l \<and>
        execute_line ctx line = Inr (r3, c3) \<longrightarrow>
        script_goto_label c3 (Some l) = (OK, c3\<lparr>line_num := line_num ctx\<rparr>))
   \<and> (find_label ctx l \<noteq> None \<longrightarrow>
        (execute_line ctx line' = Inr (r4, c4) \<longrightarrow> fst (script_goto_label c4 (Some l)) = OK) \<and>
        (script_execute mem_ok ctx script' = Inr (r5, c5) \<longrightarrow>
           fst (script_goto_label c5 (Some l)) = OK))
   \<and> (CHR ''$'' \<notin> set line \<longrightarrow> (\<exists>r c. execute_line ctx line = Inr (r, c)))
   \<and> (CHR ''$'' \<notin> set script \<longrightarrow>
        (\<exists>r c. script_execute mem_ok ctx (Some script) = Inr (r, c)))"
proof (intro conjI impI)
  show "find_label (script_reset_context c0) l = None" by (rule find_label_reset)
next
  assume "find_label ctx l = None"
  then show "script_goto_label ctx (Some l) = (SYSERR, ctx)" by (rule goto_unknown)
next
  assume a: "find_label ctx l = None \<and>
    (\<forall>x\<in>set (strtok_lines [] script). line_label x \<noteq> Some l) \<and>
    script_execute mem_ok ctx (Some script) = Inr (r1, c1)"
  have "find_label c1 l = None"
    by (rule find_label_script_execute_other [of ctx l script mem_ok r1 c1]) (use a in simp_all)
  then show "script_goto_label c1 (Some l) = (SYSERR, c1)" by (rule goto_unknown)
next
  assume a: "find_label ctx l = None \<and> (\<forall>x\<in>set ls. line_label x \<noteq> Some l) \<and>
        l \<noteq> [] \<and> \<not> is_blank (hd l) \<and> CHR '':'' \<notin> set l \<and> CHR ''='' \<notin> set l \<and>
        run_lines ctx ls = Inr c2"
  have "find_label c2 l = None"
    by (rule find_label_run_other [of ctx l ls c2]) (use a in simp_all)
  moreover have "execute_line c2 (''goto '' @ l) = Inr (script_goto_label c2 (Some l))"
    using a by (intro execute_goto_line) simp_all
  ultimately show "execute_line c2 (''goto '' @ l) = Inr (SYSERR, c2)"
    by (simp add: goto_unknown)
next
  assume a: "line_label line = Some l \<and> length l < SCRIPT_VAR_NAME_LEN \<and> label_room ctx l \<and>
        execute_line ctx line = Inr (r3, c3)"
  then obtain i where i: "find_label c3 l = Some i"
    "label_line_num (labels c3 ! i) = line_num ctx"
    using find_label_execute_defined [of line l ctx r3 c3] by blast
  show "script_goto_label c3 (Some l) = (OK, c3\<lparr>line_num := line_num ctx\<rparr>)"
    using goto_known [OF i(1)] i(2) by simp
next
  assume "find_label ctx l \<noteq> None" and e: "execute_line ctx line' = Inr (r4, c4)"
  then obtain i where i: "find_label ctx l = Some i" by auto
  show "fst (script_goto_label c4 (Some l)) = OK"
    using goto_known [OF find_label_execute_keep [OF i e]] by simp
next
  assume "find_label ctx l \<noteq> None" and e: "script_execute mem_ok ctx script' = Inr (r5, c5)"
  then obtain i where i: "find_label ctx l = Some i" by auto
  show "fst (script_goto_label c5 (Some l)) = OK"
    using goto_known [OF find_label_script_execute_keep [OF i e]] by simp
next
  assume "CHR ''$'' \<notin> set line"
  then show "\<exists>r c. execute_line ctx line = Inr (r, c)" by (rule execute_line_no_reference)
next
  assume "CHR ''$'' \<notin> set script"
  then show "\<exists>r c. script_execute mem_ok ctx (Some script) = Inr (r, c)"
    by (rule script_execute_no_reference)
qed

theorem goto_label_resolution_witness:
  "(\<exists>r c. execute_line (script_reset_context zero_context) ''top:'' = Inr (r, c) \<and>
          script_goto_label c (Some ''top'') = (OK, c\<lparr>line_num := 0\<rparr>))
   \<and> (\<exists>c. run_lines ((script_reset_context zero_context)\<lparr>running := True\<rparr>) [''x = 1''] = Inr c \<and>
          execute_line c ''goto end'' = Inr (SYSERR, c))
   \<and> (\<exists>r c. script_execute True (script_reset_context zero_context) (Some ''goto end'')
              = Inr (r, c) \<and>
            script_goto_label c (Some ''end'') = (SYSERR, c))"
proof -
  let ?c = "script_reset_context zero_context"
  note t = goto_label_resolution [THEN conjunct2, THEN conjunct2]
  note t3 = t [THEN conjunct1, rule_format]
  note t4 = t [THEN conjunct2, THEN conjunct1, rule_format]
  note t5 = t [THEN conjunct2, THEN conjunct2, THEN conjunct1, rule_format]
  have n: "find_label ?c m = None" for m by (rule find_label_reset)
  have room: "label_room ?c ''top''"
    by (simp add: label_room_def script_reset_context_def zero_context_def
        first_slot_replicate SCRIPT_MAX_LABELS_def)
  have ll: "line_label ''top:'' = Some ''top''"
    by (simp add: line_label_def has_label_def is_blank_def)
  have z: "line_num ?c = 0" by (simp add: script_reset_context_def)
  obtain r3 c3 where e3: "execute_line ?c ''top:'' = Inr (r3, c3)"
    using execute_line_no_reference [of "''top:''" ?c] by auto
  have "script_goto_label c3 (Some ''top'') = (OK, c3\<lparr>line_num := line_num ?c\<rparr>)"
    by (rule t5 [of "''top:''" _ ?c r3 c3]) (simp add: ll room e3 SCRIPT_VAR_NAME_LEN_def)
  with e3 z have a: "\<exists>r c. execute_line ?c ''top:'' = Inr (r, c) \<and>
          script_goto_label c (Some ''top'') = (OK, c\<lparr>line_num := 0\<rparr>)"
    by simp
  obtain c2 where e2: "run_lines (?c\<lparr>running := True\<rparr>) [''x = 1''] = Inr c2"
    using run_lines_no_reference [of "[''x = 1'']" "?c\<lparr>running := True\<rparr>"] by auto
  have "execute_line c2 (''goto '' @ ''end'') = Inr (SYSERR, c2)"
    by (rule t4 [of "?c\<lparr>running := True\<rparr>" _ "[''x = 1'']" c2])
      (simp add: n e2 line_label_def has_label_def is_blank_def del: run_lines.simps)
  with e2 have b: "\<exists>c. run_lines (?c\<lparr>running := True\<rparr>) [''x = 1''] = Inr c \<and>
          execute_line c ''goto end'' = Inr (SYSERR, c)"
    by simp
  obtain r1 c1 where e1: "script_execute True ?c (Some ''goto end'') = Inr (r1, c1)"
    using script_execute_no_reference [of "''goto end''" True ?c] by auto
  have "script_goto_label c1 (Some ''end'') = (SYSERR, c1)"
    by (rule t3 [of ?c _ "''goto end''" True r1 c1])
      (simp add: n e1 line_label_def has_label_def is_blank_def)
  with e1 have c: "\<exists>r c. script_execute True ?c (Some ''goto end'') = Inr (r, c) \<and>
            script_goto_label c (Some ''end'') = (SYSERR, c)"
    by simp
  from a b c show ?thesis by (intro conjI)
qed
end
